theory Spec2Isabelle
  imports Complex_Main
begin

section \<open>Outcomes of an evaluation\<close>

text \<open>
  The calculator of \<^verbatim>\<open>main.c\<close> evaluates a C string while it parses it. A call either
  returns an \<^verbatim>\<open>int\<close>, or ends the process with \<^verbatim>\<open>exit(EXIT_FAILURE)\<close> (a wrong
  character, a division by zero), or runs into an operation for which C defines no
  behaviour: an arithmetic result outside the range of \<^verbatim>\<open>int\<close>, or a read behind the
  terminating NUL of the text. Each of these ends is a value of the model.
\<close>

datatype stop =
  Wrong_Character
  | Division_By_Zero
  | Signed_Overflow
  | Read_Past_End

text \<open>
  The loops and the recursion of the parser are modelled with a step budget; \<open>None\<close>
  says that the budget ran out. Section "Termination" shows that a budget linear in
  the length of the text is always enough.
\<close>

type_synonym 'a outcome = "(stop + 'a) option"

definition and_then :: "'a outcome \<Rightarrow> ('a \<Rightarrow> 'b outcome) \<Rightarrow> 'b outcome" where
  "and_then m f = (case m of None \<Rightarrow> None | Some (Inl e) \<Rightarrow> Some (Inl e) | Some (Inr x) \<Rightarrow> f x)"

definition check :: "stop + 'a \<Rightarrow> ('a \<Rightarrow> 'b outcome) \<Rightarrow> 'b outcome" where
  "check r f = (case r of Inl e \<Rightarrow> Some (Inl e) | Inr x \<Rightarrow> f x)"

section \<open>Machine integers and characters\<close>

text \<open>\<^verbatim>\<open>int\<close> is the 32-bit two's complement type of the usual targets.\<close>

definition INT_MAX :: int where
  "INT_MAX = 2147483647"

definition INT_MIN :: int where
  "INT_MIN = - 2147483648"

definition int_result :: "int \<Rightarrow> stop + int" where
  "int_result x = (if INT_MIN \<le> x \<and> x \<le> INT_MAX then Inr x else Inl Signed_Overflow)"

text \<open>C's \<^verbatim>\<open>/\<close> on \<^verbatim>\<open>int\<close> discards the fractional part of the quotient.\<close>

definition int_quotient :: "int \<Rightarrow> int \<Rightarrow> int" where
  "int_quotient a b = (if (a < 0) = (b < 0) then \<bar>a\<bar> div \<bar>b\<bar> else - (\<bar>a\<bar> div \<bar>b\<bar>))"

text \<open>
  \<^verbatim>\<open>expr[*position]\<close>: the text \<open>expr\<close> holds the characters before the terminating
  NUL, which is what is read at position \<open>length expr\<close>. What lies behind the NUL is not
  part of the string.
\<close>

definition char_at :: "string \<Rightarrow> nat \<Rightarrow> stop + char" where
  "char_at expr position =
     (if position < length expr then Inr (expr ! position)
      else if position = length expr then Inr (CHR 0x00)
      else Inl Read_Past_End)"

definition char_code :: "char \<Rightarrow> int" where
  "char_code c = int (of_char c)"

definition isdigit :: "char \<Rightarrow> bool" where
  "isdigit c = (48 \<le> char_code c \<and> char_code c \<le> 57)"

definition is_right_char :: "char \<Rightarrow> bool" where
  "is_right_char c =
     (c = CHR ''('' \<or> c = CHR '')'' \<or> c = CHR ''+'' \<or> c = CHR ''-'' \<or>
      c = CHR ''*'' \<or> c = CHR ''/'' \<or> isdigit c)"

section \<open>The three grammar levels\<close>

text \<open>
  \<open>get_natural\<close>, \<open>evaluate_term\<close> and \<open>evaluate_expression\<close> of the source, each with
  its \<^verbatim>\<open>while\<close> loop as a function of its own (\<open>digits\<close>, \<open>term_loop\<close>,
  \<open>expression_loop\<close>). The cursor \<^verbatim>\<open>*position\<close> is passed in and returned beside the
  value. The first argument is the step budget.
\<close>

function (sequential) get_natural_fuel :: "nat \<Rightarrow> string \<Rightarrow> nat \<Rightarrow> (int \<times> nat) outcome"
  and digits_fuel :: "nat \<Rightarrow> string \<Rightarrow> int \<Rightarrow> nat \<Rightarrow> (int \<times> nat) outcome"
  and evaluate_term_fuel :: "nat \<Rightarrow> string \<Rightarrow> nat \<Rightarrow> (int \<times> nat) outcome"
  and term_loop_fuel :: "nat \<Rightarrow> string \<Rightarrow> int \<Rightarrow> nat \<Rightarrow> (int \<times> nat) outcome"
  and evaluate_expression_fuel :: "nat \<Rightarrow> string \<Rightarrow> nat \<Rightarrow> (int \<times> nat) outcome"
  and expression_loop_fuel :: "nat \<Rightarrow> string \<Rightarrow> int \<Rightarrow> nat \<Rightarrow> (int \<times> nat) outcome"
where
  "get_natural_fuel 0 expr position = None"
| "get_natural_fuel (Suc n) expr position =
     check (char_at expr position) (\<lambda>c0.
       let sign = (if c0 = CHR ''-'' then - 1 else 1);
           position1 = (if c0 = CHR ''-'' then position + 1 else position)
       in check (char_at expr position1) (\<lambda>c1.
         if c1 = CHR ''('' then
           and_then (evaluate_expression_fuel n expr (position1 + 1)) (\<lambda>(natural, position2).
             check (int_result (natural * sign)) (\<lambda>r. Some (Inr (r, position2 + 1))))
         else
           and_then (digits_fuel n expr 0 position1) (\<lambda>(natural, position2).
             check (int_result (natural * sign)) (\<lambda>r. Some (Inr (r, position2))))))"
| "digits_fuel 0 expr natural position = None"
| "digits_fuel (Suc n) expr natural position =
     check (char_at expr position) (\<lambda>c.
       if isdigit c then
         check (int_result (natural * 10)) (\<lambda>a.
         check (int_result (a + char_code c)) (\<lambda>b.
         check (int_result (b - char_code CHR ''0'')) (\<lambda>natural'.
           if position + 1 \<ge> length expr then Some (Inr (natural', position + 1))
           else digits_fuel n expr natural' (position + 1))))
       else Some (Inr (natural, position)))"
| "evaluate_term_fuel 0 expr position = None"
| "evaluate_term_fuel (Suc n) expr position =
     and_then (get_natural_fuel n expr position) (\<lambda>(result, position1).
       term_loop_fuel n expr result position1)"
| "term_loop_fuel 0 expr result position = None"
| "term_loop_fuel (Suc n) expr result position =
     check (char_at expr position) (\<lambda>operator.
       if operator = CHR ''*'' then
         and_then (get_natural_fuel n expr (position + 1)) (\<lambda>(operand, position1).
           check (int_result (result * operand)) (\<lambda>result'.
             term_loop_fuel n expr result' position1))
       else if operator = CHR ''/'' then
         and_then (get_natural_fuel n expr (position + 1)) (\<lambda>(operand, position1).
           if operand = 0 then Some (Inl Division_By_Zero)
           else check (int_result (int_quotient result operand)) (\<lambda>result'.
             term_loop_fuel n expr result' position1))
       else Some (Inr (result, position)))"
| "evaluate_expression_fuel 0 expr position = None"
| "evaluate_expression_fuel (Suc n) expr position =
     and_then (evaluate_term_fuel n expr position) (\<lambda>(result, position1).
       expression_loop_fuel n expr result position1)"
| "expression_loop_fuel 0 expr result position = None"
| "expression_loop_fuel (Suc n) expr result position =
     check (char_at expr position) (\<lambda>operator.
       if operator = CHR ''+'' then
         and_then (evaluate_term_fuel n expr (position + 1)) (\<lambda>(operand, position1).
           check (int_result (result + operand)) (\<lambda>result'.
             expression_loop_fuel n expr result' position1))
       else if operator = CHR ''-'' then
         and_then (evaluate_term_fuel n expr (position + 1)) (\<lambda>(operand, position1).
           check (int_result (result - operand)) (\<lambda>result'.
             expression_loop_fuel n expr result' position1))
       else Some (Inr (result, position)))"
  by pat_completeness auto

termination
  by (relation "measure (\<lambda>x. case x of
      Inl (Inl (n, _)) \<Rightarrow> n
    | Inl (Inr (Inl (n, _))) \<Rightarrow> n
    | Inl (Inr (Inr (n, _))) \<Rightarrow> n
    | Inr (Inl (n, _)) \<Rightarrow> n
    | Inr (Inr (Inl (n, _))) \<Rightarrow> n
    | Inr (Inr (Inr (n, _))) \<Rightarrow> n)") simp_all

text \<open>
  The budget that the top-level call hands to the parser. It is linear in the length of
  the text, and lemma \<open>fuel_stable\<close> below shows that no larger budget changes any result.
\<close>

definition fuel :: "string \<Rightarrow> nat" where
  "fuel expr = 3 * length expr + 6"

definition get_natural :: "string \<Rightarrow> nat \<Rightarrow> (int \<times> nat) outcome" where
  "get_natural expr position = get_natural_fuel (fuel expr) expr position"

definition digits :: "string \<Rightarrow> int \<Rightarrow> nat \<Rightarrow> (int \<times> nat) outcome" where
  "digits expr natural position = digits_fuel (fuel expr) expr natural position"

definition evaluate_term :: "string \<Rightarrow> nat \<Rightarrow> (int \<times> nat) outcome" where
  "evaluate_term expr position = evaluate_term_fuel (fuel expr) expr position"

definition term_loop :: "string \<Rightarrow> int \<Rightarrow> nat \<Rightarrow> (int \<times> nat) outcome" where
  "term_loop expr result position = term_loop_fuel (fuel expr) expr result position"

definition evaluate_expression :: "string \<Rightarrow> nat \<Rightarrow> (int \<times> nat) outcome" where
  "evaluate_expression expr position = evaluate_expression_fuel (fuel expr) expr position"

definition expression_loop :: "string \<Rightarrow> int \<Rightarrow> nat \<Rightarrow> (int \<times> nat) outcome" where
  "expression_loop expr result position = expression_loop_fuel (fuel expr) expr result position"

section \<open>The top-level call\<close>

text \<open>
  The loop of \<open>calculate\<close> that looks for wrong characters:
  \<^verbatim>\<open>for (unsigned int i = 0; i < strlen(expression) - 1; i++)\<close>. The bound is computed in
  \<^verbatim>\<open>size_t\<close> (64 bits), so for the empty text it wraps around to the largest value of
  that type. Texts are taken to be shorter than \<open>2\<^sup>3\<^sup>1\<close> characters, so that the
  \<^verbatim>\<open>int\<close> cursor and the \<^verbatim>\<open>unsigned\<close> counter index them without wrapping.
\<close>

definition strlen_minus_one :: "string \<Rightarrow> nat" where
  "strlen_minus_one expression =
     (if length expression = 0 then 2 ^ 64 - 1 else length expression - 1)"

function right_chars :: "string \<Rightarrow> nat \<Rightarrow> nat \<Rightarrow> stop + unit" where
  "right_chars expression bound i =
     (if i < bound then
        (case char_at expression i of
           Inl e \<Rightarrow> Inl e
         | Inr c \<Rightarrow>
             if \<not> is_right_char c then Inl Wrong_Character
             else right_chars expression bound (i + 1))
      else Inr ())"
  by pat_completeness auto

termination
  by (relation "measure (\<lambda>(expression, bound, i). length expression - i)")
    (auto simp: char_at_def is_right_char_def isdigit_def char_code_def split: if_splits)

definition calculate :: "string \<Rightarrow> int outcome" where
  "calculate expression =
     check (right_chars expression (strlen_minus_one expression) 0) (\<lambda>_.
       and_then (evaluate_expression expression 0) (\<lambda>(result, position).
         Some (Inr result)))"

section \<open>Auxiliary notions for the proofs\<close>

definition below :: "'a option \<Rightarrow> 'a option \<Rightarrow> bool" where
  "below a b = (a = None \<or> a = b)"

definition finishes :: "'a outcome \<Rightarrow> bool" where
  "finishes m = (m \<noteq> None)"

definition in_int_range :: "int \<Rightarrow> bool" where
  "in_int_range x = (INT_MIN \<le> x \<and> x \<le> INT_MAX)"

definition sum_then :: "stop + 'a \<Rightarrow> ('a \<Rightarrow> stop + 'b) \<Rightarrow> stop + 'b" where
  "sum_then r f = (case r of Inl e \<Rightarrow> Inl e | Inr x \<Rightarrow> f x)"

section \<open>Reference semantics: the grammar and standard arithmetic\<close>

text \<open>
  The well-formed expressions of the specification, as syntax trees of the grammar
  \<^verbatim>\<open>expression ::= term | expression '+' term | expression '-' term\<close>,
  \<^verbatim>\<open>term ::= factor | term '*' factor | term '/' factor\<close>,
  \<^verbatim>\<open>factor ::= ['-'] digit+ | ['-'] '(' expression ')'\<close>.
  The left recursion is the left associativity of the operators, the two levels are
  their precedence. These definitions follow the wording of the specification, not the
  code; the theorems compare the two.
\<close>

datatype digit = D0 | D1 | D2 | D3 | D4 | D5 | D6 | D7 | D8 | D9

datatype factor_tree =
    Number bool digit "digit list"
  | Group bool expression_tree
and term_tree =
    Single_Factor factor_tree
  | Multiply term_tree factor_tree
  | Divide term_tree factor_tree
and expression_tree =
    Single_Term term_tree
  | Add expression_tree term_tree
  | Subtract expression_tree term_tree

fun digit_value :: "digit \<Rightarrow> int" where
  "digit_value D0 = 0" | "digit_value D1 = 1" | "digit_value D2 = 2" | "digit_value D3 = 3"
| "digit_value D4 = 4" | "digit_value D5 = 5" | "digit_value D6 = 6" | "digit_value D7 = 7"
| "digit_value D8 = 8" | "digit_value D9 = 9"

fun digit_char :: "digit \<Rightarrow> char" where
  "digit_char D0 = CHR ''0''" | "digit_char D1 = CHR ''1''" | "digit_char D2 = CHR ''2''"
| "digit_char D3 = CHR ''3''" | "digit_char D4 = CHR ''4''" | "digit_char D5 = CHR ''5''"
| "digit_char D6 = CHR ''6''" | "digit_char D7 = CHR ''7''" | "digit_char D8 = CHR ''8''"
| "digit_char D9 = CHR ''9''"

definition sign_text :: "bool \<Rightarrow> string" where
  "sign_text negative = (if negative then ''-'' else [])"

fun text_factor :: "factor_tree \<Rightarrow> string"
  and text_term :: "term_tree \<Rightarrow> string"
  and text_expression :: "expression_tree \<Rightarrow> string"
where
  "text_factor (Number negative d ds) = sign_text negative @ map digit_char (d # ds)"
| "text_factor (Group negative e) = sign_text negative @ ''('' @ text_expression e @ '')''"
| "text_term (Single_Factor f) = text_factor f"
| "text_term (Multiply t f) = text_term t @ ''*'' @ text_factor f"
| "text_term (Divide t f) = text_term t @ ''/'' @ text_factor f"
| "text_expression (Single_Term t) = text_term t"
| "text_expression (Add e t) = text_expression e @ ''+'' @ text_term t"
| "text_expression (Subtract e t) = text_expression e @ ''-'' @ text_term t"

text \<open>The quotient of two integers with its fractional part discarded.\<close>

definition truncated_quotient :: "int \<Rightarrow> int \<Rightarrow> int" where
  "truncated_quotient a b =
     (let q = real_of_int a / real_of_int b in if 0 \<le> q then \<lfloor>q\<rfloor> else \<lceil>q\<rceil>)"

fun decimal :: "int \<Rightarrow> digit list \<Rightarrow> int" where
  "decimal n [] = n"
| "decimal n (d # ds) = decimal (n * 10 + digit_value d) ds"

definition signed :: "bool \<Rightarrow> int \<Rightarrow> int" where
  "signed negative v = (if negative then - v else v)"

fun value_factor :: "factor_tree \<Rightarrow> int"
  and value_term :: "term_tree \<Rightarrow> int"
  and value_expression :: "expression_tree \<Rightarrow> int"
where
  "value_factor (Number negative d ds) = signed negative (decimal 0 (d # ds))"
| "value_factor (Group negative e) = signed negative (value_expression e)"
| "value_term (Single_Factor f) = value_factor f"
| "value_term (Multiply t f) = value_term t * value_factor f"
| "value_term (Divide t f) = truncated_quotient (value_term t) (value_factor f)"
| "value_expression (Single_Term t) = value_term t"
| "value_expression (Add e t) = value_expression e + value_term t"
| "value_expression (Subtract e t) = value_expression e - value_term t"

text \<open>No division of the expression has a right operand of value 0.\<close>

fun divisors_nonzero_factor :: "factor_tree \<Rightarrow> bool"
  and divisors_nonzero_term :: "term_tree \<Rightarrow> bool"
  and divisors_nonzero :: "expression_tree \<Rightarrow> bool"
where
  "divisors_nonzero_factor (Number negative d ds) = True"
| "divisors_nonzero_factor (Group negative e) = divisors_nonzero e"
| "divisors_nonzero_term (Single_Factor f) = divisors_nonzero_factor f"
| "divisors_nonzero_term (Multiply t f) = (divisors_nonzero_term t \<and> divisors_nonzero_factor f)"
| "divisors_nonzero_term (Divide t f) =
     (divisors_nonzero_term t \<and> divisors_nonzero_factor f \<and> value_factor f \<noteq> 0)"
| "divisors_nonzero (Single_Term t) = divisors_nonzero_term t"
| "divisors_nonzero (Add e t) = (divisors_nonzero e \<and> divisors_nonzero_term t)"
| "divisors_nonzero (Subtract e t) = (divisors_nonzero e \<and> divisors_nonzero_term t)"

text \<open>
  Every number that the code computes on the way lies in the range of \<^verbatim>\<open>int\<close>: the
  value of every factor, term and expression, and for a literal also the sum
  \<^verbatim>\<open>natural * 10 + expr[*position]\<close> that the code forms before it subtracts
  \<^verbatim>\<open>'0'\<close>, which is the literal's value plus 48 at the last digit.
\<close>

fun within_int_factor :: "factor_tree \<Rightarrow> bool"
  and within_int_term :: "term_tree \<Rightarrow> bool"
  and within_int :: "expression_tree \<Rightarrow> bool"
where
  "within_int_factor (Number negative d ds) = (decimal 0 (d # ds) + 48 \<le> INT_MAX)"
| "within_int_factor (Group negative e) =
     (within_int e \<and> in_int_range (signed negative (value_expression e)))"
| "within_int_term (Single_Factor f) = within_int_factor f"
| "within_int_term (Multiply t f) =
     (within_int_term t \<and> within_int_factor f \<and> in_int_range (value_term t * value_factor f))"
| "within_int_term (Divide t f) =
     (within_int_term t \<and> within_int_factor f \<and>
      in_int_range (truncated_quotient (value_term t) (value_factor f)))"
| "within_int (Single_Term t) = within_int_term t"
| "within_int (Add e t) =
     (within_int e \<and> within_int_term t \<and> in_int_range (value_expression e + value_term t))"
| "within_int (Subtract e t) =
     (within_int e \<and> within_int_term t \<and> in_int_range (value_expression e - value_term t))"

text \<open>
  The computations of the code, arranged along the syntax tree: the same operations with
  the same checks in the same order as the parser performs them on the text of the tree.
\<close>

fun run_digits :: "int \<Rightarrow> digit list \<Rightarrow> stop + int" where
  "run_digits natural [] = Inr natural"
| "run_digits natural (d # ds) =
     sum_then (int_result (natural * 10)) (\<lambda>a.
     sum_then (int_result (a + char_code (digit_char d))) (\<lambda>b.
     sum_then (int_result (b - char_code CHR ''0'')) (\<lambda>natural'.
       run_digits natural' ds)))"

definition sign_factor :: "bool \<Rightarrow> int" where
  "sign_factor negative = (if negative then - 1 else 1)"

fun run_factor :: "factor_tree \<Rightarrow> stop + int"
  and run_term :: "term_tree \<Rightarrow> stop + int"
  and run_expression :: "expression_tree \<Rightarrow> stop + int"
where
  "run_factor (Number negative d ds) =
     sum_then (run_digits 0 (d # ds)) (\<lambda>natural. int_result (natural * sign_factor negative))"
| "run_factor (Group negative e) =
     sum_then (run_expression e) (\<lambda>natural. int_result (natural * sign_factor negative))"
| "run_term (Single_Factor f) = run_factor f"
| "run_term (Multiply t f) =
     sum_then (run_term t) (\<lambda>result.
     sum_then (run_factor f) (\<lambda>operand. int_result (result * operand)))"
| "run_term (Divide t f) =
     sum_then (run_term t) (\<lambda>result.
     sum_then (run_factor f) (\<lambda>operand.
       if operand = 0 then Inl Division_By_Zero
       else int_result (int_quotient result operand)))"
| "run_expression (Single_Term t) = run_term t"
| "run_expression (Add e t) =
     sum_then (run_expression e) (\<lambda>result.
     sum_then (run_term t) (\<lambda>operand. int_result (result + operand)))"
| "run_expression (Subtract e t) =
     sum_then (run_expression e) (\<lambda>result.
     sum_then (run_term t) (\<lambda>operand. int_result (result - operand)))"

text \<open>The character that a text begins with; the terminating NUL for the empty text.\<close>

definition first_char :: "string \<Rightarrow> char" where
  "first_char rest = (case rest of [] \<Rightarrow> CHR 0x00 | c # _ \<Rightarrow> c)"

section \<open>The work of an evaluation\<close>

text \<open>
  The number of steps that a call makes: one for every call of \<open>get_natural\<close>,
  \<open>evaluate_term\<close> and \<open>evaluate_expression\<close> and one for every test of the condition
  of one of the three \<^verbatim>\<open>while\<close> loops, counted over the whole run of the call, the calls
  that it makes included. The counting functions follow the functions of the parser
  equation by equation; where the parser goes on after a call that has returned, the
  count goes on, and where the parser stops, the count stops.
\<close>

definition steps_check :: "stop + 'a \<Rightarrow> ('a \<Rightarrow> nat) \<Rightarrow> nat" where
  "steps_check r f = (case r of Inl e \<Rightarrow> 0 | Inr x \<Rightarrow> f x)"

definition steps_after :: "'a outcome \<Rightarrow> ('a \<Rightarrow> nat) \<Rightarrow> nat" where
  "steps_after m f = (case m of None \<Rightarrow> 0 | Some (Inl e) \<Rightarrow> 0 | Some (Inr x) \<Rightarrow> f x)"

function (sequential) get_natural_steps :: "nat \<Rightarrow> string \<Rightarrow> nat \<Rightarrow> nat"
  and digits_steps :: "nat \<Rightarrow> string \<Rightarrow> int \<Rightarrow> nat \<Rightarrow> nat"
  and evaluate_term_steps :: "nat \<Rightarrow> string \<Rightarrow> nat \<Rightarrow> nat"
  and term_loop_steps :: "nat \<Rightarrow> string \<Rightarrow> int \<Rightarrow> nat \<Rightarrow> nat"
  and evaluate_expression_steps :: "nat \<Rightarrow> string \<Rightarrow> nat \<Rightarrow> nat"
  and expression_loop_steps :: "nat \<Rightarrow> string \<Rightarrow> int \<Rightarrow> nat \<Rightarrow> nat"
where
  "get_natural_steps 0 expr position = 0"
| "get_natural_steps (Suc n) expr position =
     1 + steps_check (char_at expr position) (\<lambda>c0.
       let position1 = (if c0 = CHR ''-'' then position + 1 else position)
       in steps_check (char_at expr position1) (\<lambda>c1.
         if c1 = CHR ''('' then evaluate_expression_steps n expr (position1 + 1)
         else digits_steps n expr 0 position1))"
| "digits_steps 0 expr natural position = 0"
| "digits_steps (Suc n) expr natural position =
     1 + steps_check (char_at expr position) (\<lambda>c.
       if isdigit c then
         steps_check (int_result (natural * 10)) (\<lambda>a.
         steps_check (int_result (a + char_code c)) (\<lambda>b.
         steps_check (int_result (b - char_code CHR ''0'')) (\<lambda>natural'.
           if position + 1 \<ge> length expr then 0
           else digits_steps n expr natural' (position + 1))))
       else 0)"
| "evaluate_term_steps 0 expr position = 0"
| "evaluate_term_steps (Suc n) expr position =
     1 + get_natural_steps n expr position +
     steps_after (get_natural_fuel n expr position) (\<lambda>(result, position1).
       term_loop_steps n expr result position1)"
| "term_loop_steps 0 expr result position = 0"
| "term_loop_steps (Suc n) expr result position =
     1 + steps_check (char_at expr position) (\<lambda>operator.
       if operator = CHR ''*'' then
         get_natural_steps n expr (position + 1) +
         steps_after (get_natural_fuel n expr (position + 1)) (\<lambda>(operand, position1).
           steps_check (int_result (result * operand)) (\<lambda>result'.
             term_loop_steps n expr result' position1))
       else if operator = CHR ''/'' then
         get_natural_steps n expr (position + 1) +
         steps_after (get_natural_fuel n expr (position + 1)) (\<lambda>(operand, position1).
           if operand = 0 then 0
           else steps_check (int_result (int_quotient result operand)) (\<lambda>result'.
             term_loop_steps n expr result' position1))
       else 0)"
| "evaluate_expression_steps 0 expr position = 0"
| "evaluate_expression_steps (Suc n) expr position =
     1 + evaluate_term_steps n expr position +
     steps_after (evaluate_term_fuel n expr position) (\<lambda>(result, position1).
       expression_loop_steps n expr result position1)"
| "expression_loop_steps 0 expr result position = 0"
| "expression_loop_steps (Suc n) expr result position =
     1 + steps_check (char_at expr position) (\<lambda>operator.
       if operator = CHR ''+'' then
         evaluate_term_steps n expr (position + 1) +
         steps_after (evaluate_term_fuel n expr (position + 1)) (\<lambda>(operand, position1).
           steps_check (int_result (result + operand)) (\<lambda>result'.
             expression_loop_steps n expr result' position1))
       else if operator = CHR ''-'' then
         evaluate_term_steps n expr (position + 1) +
         steps_after (evaluate_term_fuel n expr (position + 1)) (\<lambda>(operand, position1).
           steps_check (int_result (result - operand)) (\<lambda>result'.
             expression_loop_steps n expr result' position1))
       else 0)"
  by pat_completeness auto

termination
  by (relation "measure (\<lambda>x. case x of
      Inl (Inl (n, _)) \<Rightarrow> n
    | Inl (Inr (Inl (n, _))) \<Rightarrow> n
    | Inl (Inr (Inr (n, _))) \<Rightarrow> n
    | Inr (Inl (n, _)) \<Rightarrow> n
    | Inr (Inr (Inl (n, _))) \<Rightarrow> n
    | Inr (Inr (Inr (n, _))) \<Rightarrow> n)") simp_all

text \<open>
  \<open>work_bound L B p k m\<close>: a call at cursor \<open>p\<close> in a text of length \<open>L\<close> that makes \<open>k\<close>
  steps and has the outcome \<open>m\<close> pays at most five steps for every position that the cursor
  can still advance, and \<open>B\<close> steps more; if it returns, it pays at most five steps for
  every position that the cursor has advanced, and \<open>B\<close> steps more.
\<close>

definition work_bound :: "nat \<Rightarrow> nat \<Rightarrow> nat \<Rightarrow> nat \<Rightarrow> (int \<times> nat) outcome \<Rightarrow> bool" where
  "work_bound L B p k m =
     (k \<le> 5 * (L + 1 - p) + B \<and>
      (\<forall>v p'. m = Some (Inr (v, p')) \<longrightarrow> p \<le> p' \<and> p' \<le> L + 1 \<and> k + 5 * p \<le> 5 * p' + B))"

section \<open>The calls of an evaluation\<close>

text \<open>
  The calls that the top-level call \<^verbatim>\<open>evaluate_expression(expression, &position)\<close> with
  \<^verbatim>\<open>position = 0\<close> leads to, directly or through other calls, on a given text: each
  rule is one call site of the source, with the conditions under which the run gets
  there.
\<close>

datatype call =
    Get_Natural nat
  | Evaluate_Term nat
  | Term_Loop int nat
  | Evaluate_Expression nat
  | Expression_Loop int nat

inductive reached :: "string \<Rightarrow> call \<Rightarrow> bool" for expr :: string where
  top_level: "reached expr (Evaluate_Expression 0)"
| expression_term:
    "reached expr (Evaluate_Expression position) \<Longrightarrow> reached expr (Evaluate_Term position)"
| expression_loop:
    "reached expr (Evaluate_Expression position) \<Longrightarrow>
     evaluate_term expr position = Some (Inr (result, position1)) \<Longrightarrow>
     reached expr (Expression_Loop result position1)"
| term_factor:
    "reached expr (Evaluate_Term position) \<Longrightarrow> reached expr (Get_Natural position)"
| term_loop:
    "reached expr (Evaluate_Term position) \<Longrightarrow>
     get_natural expr position = Some (Inr (result, position1)) \<Longrightarrow>
     reached expr (Term_Loop result position1)"
| times_factor:
    "reached expr (Term_Loop result position) \<Longrightarrow> char_at expr position = Inr CHR ''*'' \<Longrightarrow>
     reached expr (Get_Natural (position + 1))"
| times_loop:
    "reached expr (Term_Loop result position) \<Longrightarrow> char_at expr position = Inr CHR ''*'' \<Longrightarrow>
     get_natural expr (position + 1) = Some (Inr (operand, position1)) \<Longrightarrow>
     int_result (result * operand) = Inr result' \<Longrightarrow>
     reached expr (Term_Loop result' position1)"
| divide_factor:
    "reached expr (Term_Loop result position) \<Longrightarrow> char_at expr position = Inr CHR ''/'' \<Longrightarrow>
     reached expr (Get_Natural (position + 1))"
| divide_loop:
    "reached expr (Term_Loop result position) \<Longrightarrow> char_at expr position = Inr CHR ''/'' \<Longrightarrow>
     get_natural expr (position + 1) = Some (Inr (operand, position1)) \<Longrightarrow>
     operand \<noteq> 0 \<Longrightarrow> int_result (int_quotient result operand) = Inr result' \<Longrightarrow>
     reached expr (Term_Loop result' position1)"
| plus_term:
    "reached expr (Expression_Loop result position) \<Longrightarrow> char_at expr position = Inr CHR ''+'' \<Longrightarrow>
     reached expr (Evaluate_Term (position + 1))"
| plus_loop:
    "reached expr (Expression_Loop result position) \<Longrightarrow> char_at expr position = Inr CHR ''+'' \<Longrightarrow>
     evaluate_term expr (position + 1) = Some (Inr (operand, position1)) \<Longrightarrow>
     int_result (result + operand) = Inr result' \<Longrightarrow>
     reached expr (Expression_Loop result' position1)"
| minus_term:
    "reached expr (Expression_Loop result position) \<Longrightarrow> char_at expr position = Inr CHR ''-'' \<Longrightarrow>
     reached expr (Evaluate_Term (position + 1))"
| minus_loop:
    "reached expr (Expression_Loop result position) \<Longrightarrow> char_at expr position = Inr CHR ''-'' \<Longrightarrow>
     evaluate_term expr (position + 1) = Some (Inr (operand, position1)) \<Longrightarrow>
     int_result (result - operand) = Inr result' \<Longrightarrow>
     reached expr (Expression_Loop result' position1)"
| group:
    "reached expr (Get_Natural position) \<Longrightarrow> char_at expr position = Inr CHR ''('' \<Longrightarrow>
     reached expr (Evaluate_Expression (position + 1))"
| negative_group:
    "reached expr (Get_Natural position) \<Longrightarrow> char_at expr position = Inr CHR ''-'' \<Longrightarrow>
     char_at expr (position + 1) = Inr CHR ''('' \<Longrightarrow>
     reached expr (Evaluate_Expression (position + 2))"

text \<open>The outcome of a call.\<close>

fun call_outcome :: "string \<Rightarrow> call \<Rightarrow> (int \<times> nat) outcome" where
  "call_outcome expr (Get_Natural position) = get_natural expr position"
| "call_outcome expr (Evaluate_Term position) = evaluate_term expr position"
| "call_outcome expr (Term_Loop result position) = term_loop expr result position"
| "call_outcome expr (Evaluate_Expression position) = evaluate_expression expr position"
| "call_outcome expr (Expression_Loop result position) = expression_loop expr result position"

section \<open>Reference semantics: a zero divisor met first\<close>

text \<open>
  Going through a well-formed expression in the order of evaluation (from left to right,
  the operands of an operator before the operator), the first thing out of the ordinary
  is a division whose right operand has the value 0: whatever is evaluated before that
  division has no zero divisor and stays in the range of \<^verbatim>\<open>int\<close>. As the other notions
  of the reference semantics, this one follows the wording of the specification.
\<close>

fun zero_divisor_first_factor :: "factor_tree \<Rightarrow> bool"
  and zero_divisor_first_term :: "term_tree \<Rightarrow> bool"
  and zero_divisor_first :: "expression_tree \<Rightarrow> bool"
where
  "zero_divisor_first_factor (Number negative d ds) = False"
| "zero_divisor_first_factor (Group negative e) = zero_divisor_first e"
| "zero_divisor_first_term (Single_Factor f) = zero_divisor_first_factor f"
| "zero_divisor_first_term (Multiply t f) =
     (zero_divisor_first_term t \<or>
      within_int_term t \<and> divisors_nonzero_term t \<and> zero_divisor_first_factor f)"
| "zero_divisor_first_term (Divide t f) =
     (zero_divisor_first_term t \<or>
      within_int_term t \<and> divisors_nonzero_term t \<and>
        (zero_divisor_first_factor f \<or>
         within_int_factor f \<and> divisors_nonzero_factor f \<and> value_factor f = 0))"
| "zero_divisor_first (Single_Term t) = zero_divisor_first_term t"
| "zero_divisor_first (Add e t) =
     (zero_divisor_first e \<or> within_int e \<and> divisors_nonzero e \<and> zero_divisor_first_term t)"
| "zero_divisor_first (Subtract e t) =
     (zero_divisor_first e \<or> within_int e \<and> divisors_nonzero e \<and> zero_divisor_first_term t)"

declare get_natural_fuel.simps [simp del] digits_fuel.simps [simp del]
  evaluate_term_fuel.simps [simp del] term_loop_fuel.simps [simp del]
  evaluate_expression_fuel.simps [simp del] expression_loop_fuel.simps [simp del]
  right_chars.simps [simp del]
  get_natural_steps.simps [simp del] digits_steps.simps [simp del]
  evaluate_term_steps.simps [simp del] term_loop_steps.simps [simp del]
  evaluate_expression_steps.simps [simp del] expression_loop_steps.simps [simp del]

section \<open>Basic facts about the combinators\<close>

text \<open>
  A larger budget never changes an outcome that a smaller one has reached: the outcomes
  for growing budgets form a chain in the order \<open>below\<close>.
\<close>

lemma and_then_simps [simp]:
  "and_then None f = None"
  "and_then (Some (Inl e)) f = Some (Inl e)"
  "and_then (Some (Inr x)) f = f x"
  by (simp_all add: and_then_def)

lemma check_simps [simp]:
  "check (Inl e) f = Some (Inl e)"
  "check (Inr x) f = f x"
  by (simp_all add: check_def)

lemma below_refl: "below a a"
  by (simp add: below_def)

lemma below_None: "below None a"
  by (simp add: below_def)

lemma below_and_then:
  "below m m' \<Longrightarrow> (\<And>x. below (f x) (f' x)) \<Longrightarrow> below (and_then m f) (and_then m' f')"
  by (auto simp: below_def and_then_def split: option.splits sum.splits)

lemma below_check:
  "(\<And>x. below (f x) (f' x)) \<Longrightarrow> below (check r f) (check r f')"
  by (cases r) (simp_all add: below_refl)

lemma below_if:
  "(b \<Longrightarrow> below x x') \<Longrightarrow> (\<not> b \<Longrightarrow> below y y') \<Longrightarrow> below (if b then x else y) (if b then x' else y')"
  by simp

lemma below_case_prod:
  "(\<And>a b. below (f a b) (g a b)) \<Longrightarrow> below (case_prod f x) (case_prod g x)"
  by (cases x) simp

lemmas below_intros = below_and_then below_check below_if below_case_prod

lemma fuel_Suc_below:
  "below (get_natural_fuel n s p) (get_natural_fuel (Suc n) s p) \<and>
   below (digits_fuel n s a p) (digits_fuel (Suc n) s a p) \<and>
   below (evaluate_term_fuel n s p) (evaluate_term_fuel (Suc n) s p) \<and>
   below (term_loop_fuel n s a p) (term_loop_fuel (Suc n) s a p) \<and>
   below (evaluate_expression_fuel n s p) (evaluate_expression_fuel (Suc n) s p) \<and>
   below (expression_loop_fuel n s a p) (expression_loop_fuel (Suc n) s a p)"
proof (induction n arbitrary: p a)
  case 0
  show ?case by (simp add: below_None get_natural_fuel.simps digits_fuel.simps evaluate_term_fuel.simps term_loop_fuel.simps evaluate_expression_fuel.simps expression_loop_fuel.simps)
next
  case (Suc n)
  have ih:
    "\<And>p. below (get_natural_fuel n s p) (get_natural_fuel (Suc n) s p)"
    "\<And>a p. below (digits_fuel n s a p) (digits_fuel (Suc n) s a p)"
    "\<And>p. below (evaluate_term_fuel n s p) (evaluate_term_fuel (Suc n) s p)"
    "\<And>a p. below (term_loop_fuel n s a p) (term_loop_fuel (Suc n) s a p)"
    "\<And>p. below (evaluate_expression_fuel n s p) (evaluate_expression_fuel (Suc n) s p)"
    "\<And>a p. below (expression_loop_fuel n s a p) (expression_loop_fuel (Suc n) s a p)"
    using Suc.IH by blast+
  have gn: "below (get_natural_fuel (Suc n) s p) (get_natural_fuel (Suc (Suc n)) s p)" for p
    by (subst get_natural_fuel.simps(2), subst get_natural_fuel.simps(2), unfold Let_def, intro below_intros below_refl ih)
  have dg: "below (digits_fuel (Suc n) s a p) (digits_fuel (Suc (Suc n)) s a p)" for a p
    by (subst digits_fuel.simps(2), subst digits_fuel.simps(2), intro below_intros below_refl ih)
  have et: "below (evaluate_term_fuel (Suc n) s p) (evaluate_term_fuel (Suc (Suc n)) s p)" for p
    by (subst evaluate_term_fuel.simps(2), subst evaluate_term_fuel.simps(2), intro below_intros below_refl ih)
  have tl: "below (term_loop_fuel (Suc n) s a p) (term_loop_fuel (Suc (Suc n)) s a p)" for a p
    by (subst term_loop_fuel.simps(2), subst term_loop_fuel.simps(2), intro below_intros below_refl ih)
  have ee: "below (evaluate_expression_fuel (Suc n) s p) (evaluate_expression_fuel (Suc (Suc n)) s p)" for p
    by (subst evaluate_expression_fuel.simps(2), subst evaluate_expression_fuel.simps(2), intro below_intros below_refl ih)
  have el: "below (expression_loop_fuel (Suc n) s a p) (expression_loop_fuel (Suc (Suc n)) s a p)" for a p
    by (subst expression_loop_fuel.simps(2), subst expression_loop_fuel.simps(2), intro below_intros below_refl ih)
  show ?case using gn dg et tl ee el by blast
qed

lemma and_then_Inr:
  "and_then m f = Some (Inr y) \<Longrightarrow> \<exists>x. m = Some (Inr x) \<and> f x = Some (Inr y)"
  by (auto simp: and_then_def split: option.splits sum.splits)

lemma check_Inr:
  "check r f = Some (Inr y) \<Longrightarrow> \<exists>x. r = Inr x \<and> f x = Some (Inr y)"
  by (cases r) simp_all

lemma int_result_Inr: "int_result x = Inr y \<longleftrightarrow> y = x \<and> in_int_range x"
  by (auto simp: int_result_def in_int_range_def)

lemma char_at_cases:
  "char_at s p = Inr c \<Longrightarrow> p < length s \<and> c = s ! p \<or> p = length s \<and> c = CHR 0x00"
  by (auto simp: char_at_def split: if_splits)

lemma isdigit_NUL [simp]: "\<not> isdigit (CHR 0x00)"
  by (simp add: isdigit_def char_code_def)

lemma in_int_range_0 [simp]: "in_int_range 0"
  by (simp add: in_int_range_def INT_MIN_def INT_MAX_def)

lemma fuel_returns:
  "(get_natural_fuel n s p = Some (Inr (v, p')) \<longrightarrow> p \<le> p' \<and> p' \<le> length s + 1 \<and> in_int_range v) \<and>
   (digits_fuel n s a p = Some (Inr (v, p')) \<longrightarrow> p \<le> p' \<and> p' \<le> length s \<and> (in_int_range a \<longrightarrow> in_int_range v)) \<and>
   (evaluate_term_fuel n s p = Some (Inr (v, p')) \<longrightarrow> p \<le> p' \<and> p' \<le> length s \<and> in_int_range v) \<and>
   (term_loop_fuel n s a p = Some (Inr (v, p')) \<longrightarrow> p \<le> p' \<and> p' \<le> length s \<and> (in_int_range a \<longrightarrow> in_int_range v)) \<and>
   (evaluate_expression_fuel n s p = Some (Inr (v, p')) \<longrightarrow> p \<le> p' \<and> p' \<le> length s \<and> in_int_range v) \<and>
   (expression_loop_fuel n s a p = Some (Inr (v, p')) \<longrightarrow> p \<le> p' \<and> p' \<le> length s \<and> (in_int_range a \<longrightarrow> in_int_range v))"
proof (induction n arbitrary: p a v p')
  case 0
  show ?case by (simp add: get_natural_fuel.simps digits_fuel.simps evaluate_term_fuel.simps term_loop_fuel.simps evaluate_expression_fuel.simps expression_loop_fuel.simps)
next
  case (Suc n)
  have ih:
    "\<And>p v p'. get_natural_fuel n s p = Some (Inr (v, p')) \<Longrightarrow> p \<le> p' \<and> p' \<le> length s + 1 \<and> in_int_range v"
    "\<And>a p v p'. digits_fuel n s a p = Some (Inr (v, p')) \<Longrightarrow> p \<le> p' \<and> p' \<le> length s \<and> (in_int_range a \<longrightarrow> in_int_range v)"
    "\<And>p v p'. evaluate_term_fuel n s p = Some (Inr (v, p')) \<Longrightarrow> p \<le> p' \<and> p' \<le> length s \<and> in_int_range v"
    "\<And>a p v p'. term_loop_fuel n s a p = Some (Inr (v, p')) \<Longrightarrow> p \<le> p' \<and> p' \<le> length s \<and> (in_int_range a \<longrightarrow> in_int_range v)"
    "\<And>p v p'. evaluate_expression_fuel n s p = Some (Inr (v, p')) \<Longrightarrow> p \<le> p' \<and> p' \<le> length s \<and> in_int_range v"
    "\<And>a p v p'. expression_loop_fuel n s a p = Some (Inr (v, p')) \<Longrightarrow> p \<le> p' \<and> p' \<le> length s \<and> (in_int_range a \<longrightarrow> in_int_range v)"
    using Suc.IH by blast+
  have gn: "p \<le> p' \<and> p' \<le> length s + 1 \<and> in_int_range v"
    if "get_natural_fuel (Suc n) s p = Some (Inr (v, p'))" for p v p'
    using that
    apply (subst (asm) get_natural_fuel.simps(2))
    apply (unfold Let_def)
    apply (auto dest!: and_then_Inr check_Inr ih char_at_cases simp: int_result_Inr split: if_splits)
    done
  have dg: "p \<le> p' \<and> p' \<le> length s \<and> (in_int_range a \<longrightarrow> in_int_range v)"
    if "digits_fuel (Suc n) s a p = Some (Inr (v, p'))" for a p v p'
    using that
    apply (subst (asm) digits_fuel.simps(2))
    apply (auto dest!: and_then_Inr check_Inr ih char_at_cases simp: int_result_Inr split: if_splits)
    done
  have et: "p \<le> p' \<and> p' \<le> length s \<and> in_int_range v"
    if "evaluate_term_fuel (Suc n) s p = Some (Inr (v, p'))" for p v p'
    using that
    apply (subst (asm) evaluate_term_fuel.simps(2))
    apply (auto dest!: and_then_Inr check_Inr ih char_at_cases simp: int_result_Inr split: if_splits)
    done
  have tl: "p \<le> p' \<and> p' \<le> length s \<and> (in_int_range a \<longrightarrow> in_int_range v)"
    if "term_loop_fuel (Suc n) s a p = Some (Inr (v, p'))" for a p v p'
    using that
    apply (subst (asm) term_loop_fuel.simps(2))
    apply (auto dest!: and_then_Inr check_Inr ih char_at_cases simp: int_result_Inr split: if_splits)
    done
  have ee: "p \<le> p' \<and> p' \<le> length s \<and> in_int_range v"
    if "evaluate_expression_fuel (Suc n) s p = Some (Inr (v, p'))" for p v p'
    using that
    apply (subst (asm) evaluate_expression_fuel.simps(2))
    apply (auto dest!: and_then_Inr check_Inr ih char_at_cases simp: int_result_Inr split: if_splits)
    done
  have el: "p \<le> p' \<and> p' \<le> length s \<and> (in_int_range a \<longrightarrow> in_int_range v)"
    if "expression_loop_fuel (Suc n) s a p = Some (Inr (v, p'))" for a p v p'
    using that
    apply (subst (asm) expression_loop_fuel.simps(2))
    apply (auto dest!: and_then_Inr check_Inr ih char_at_cases simp: int_result_Inr split: if_splits)
    done
  show ?case by (intro conjI gn [THEN impI] dg [THEN impI] et [THEN impI] tl [THEN impI] ee [THEN impI] el [THEN impI])
qed

lemma finishes_and_then:
  "finishes m \<Longrightarrow> (\<And>x. m = Some (Inr x) \<Longrightarrow> finishes (f x)) \<Longrightarrow> finishes (and_then m f)"
  by (auto simp: finishes_def and_then_def split: option.splits sum.splits)

lemma finishes_check:
  "(\<And>x. r = Inr x \<Longrightarrow> finishes (f x)) \<Longrightarrow> finishes (check r f)"
  by (cases r) (simp_all add: finishes_def)

lemma finishes_Some [simp]: "finishes (Some x)"
  by (simp add: finishes_def)

lemma finishes_if:
  "(b \<Longrightarrow> finishes x) \<Longrightarrow> (\<not> b \<Longrightarrow> finishes y) \<Longrightarrow> finishes (if b then x else y)"
  by simp

lemma finishes_case_prod:
  "(\<And>a b. x = (a, b) \<Longrightarrow> finishes (f a b)) \<Longrightarrow> finishes (case_prod f x)"
  by (cases x) simp

lemmas finishes_intros = finishes_and_then finishes_check finishes_Some finishes_if finishes_case_prod

lemmas returns_get_natural = fuel_returns [THEN conjunct1, rule_format]
lemmas returns_digits = fuel_returns [THEN conjunct2, THEN conjunct1, rule_format]
lemmas returns_evaluate_term = fuel_returns [THEN conjunct2, THEN conjunct2, THEN conjunct1, rule_format]
lemmas returns_term_loop = fuel_returns [THEN conjunct2, THEN conjunct2, THEN conjunct2, THEN conjunct1, rule_format]
lemmas returns_evaluate_expression = fuel_returns [THEN conjunct2, THEN conjunct2, THEN conjunct2, THEN conjunct2, THEN conjunct1, rule_format]
lemmas returns_expression_loop = fuel_returns [THEN conjunct2, THEN conjunct2, THEN conjunct2, THEN conjunct2, THEN conjunct2, rule_format]

lemma fuel_enough:
  "(3 * (length s + 1 - p) + 1 \<le> n \<longrightarrow> finishes (get_natural_fuel n s p)) \<and>
   ((length s + 1 - p) + 1 \<le> n \<longrightarrow> finishes (digits_fuel n s a p)) \<and>
   (3 * (length s + 1 - p) + 2 \<le> n \<longrightarrow> finishes (evaluate_term_fuel n s p)) \<and>
   (3 * (length s + 1 - p) + 1 \<le> n \<longrightarrow> finishes (term_loop_fuel n s a p)) \<and>
   (3 * (length s + 1 - p) + 3 \<le> n \<longrightarrow> finishes (evaluate_expression_fuel n s p)) \<and>
   (3 * (length s + 1 - p) + 1 \<le> n \<longrightarrow> finishes (expression_loop_fuel n s a p))"
proof (induction n arbitrary: p a)
  case 0
  show ?case by (simp add: finishes_def get_natural_fuel.simps digits_fuel.simps evaluate_term_fuel.simps term_loop_fuel.simps evaluate_expression_fuel.simps expression_loop_fuel.simps)
next
  case (Suc n)
  have ih:
    "\<And>p. 3 * (length s + 1 - p) + 1 \<le> n \<Longrightarrow> finishes (get_natural_fuel n s p)"
    "\<And>a p. (length s + 1 - p) + 1 \<le> n \<Longrightarrow> finishes (digits_fuel n s a p)"
    "\<And>p. 3 * (length s + 1 - p) + 2 \<le> n \<Longrightarrow> finishes (evaluate_term_fuel n s p)"
    "\<And>a p. 3 * (length s + 1 - p) + 1 \<le> n \<Longrightarrow> finishes (term_loop_fuel n s a p)"
    "\<And>p. 3 * (length s + 1 - p) + 3 \<le> n \<Longrightarrow> finishes (evaluate_expression_fuel n s p)"
    "\<And>a p. 3 * (length s + 1 - p) + 1 \<le> n \<Longrightarrow> finishes (expression_loop_fuel n s a p)"
    using Suc.IH by blast+
  have gn: "finishes (get_natural_fuel (Suc n) s p)"
    if "3 * (length s + 1 - p) + 1 \<le> Suc n" for p
    using that
    apply (subst get_natural_fuel.simps(2))
    apply (unfold Let_def)
    apply (intro finishes_intros ih)
    apply (auto
         dest!: char_at_cases returns_get_natural returns_digits returns_evaluate_term
           returns_term_loop returns_evaluate_expression returns_expression_loop)
    done
  have dg: "finishes (digits_fuel (Suc n) s a p)"
    if "(length s + 1 - p) + 1 \<le> Suc n" for a p
    using that
    apply (subst digits_fuel.simps(2))
    apply (intro finishes_intros ih)
    apply (auto
         dest!: char_at_cases returns_get_natural returns_digits returns_evaluate_term
           returns_term_loop returns_evaluate_expression returns_expression_loop)
    done
  have et: "finishes (evaluate_term_fuel (Suc n) s p)"
    if "3 * (length s + 1 - p) + 2 \<le> Suc n" for p
    using that
    apply (subst evaluate_term_fuel.simps(2))
    apply (intro finishes_intros ih)
    apply (auto
         dest!: char_at_cases returns_get_natural returns_digits returns_evaluate_term
           returns_term_loop returns_evaluate_expression returns_expression_loop)
    done
  have tl: "finishes (term_loop_fuel (Suc n) s a p)"
    if "3 * (length s + 1 - p) + 1 \<le> Suc n" for a p
    using that
    apply (subst term_loop_fuel.simps(2))
    apply (intro finishes_intros ih)
    apply (auto
         dest!: char_at_cases returns_get_natural returns_digits returns_evaluate_term
           returns_term_loop returns_evaluate_expression returns_expression_loop)
    done
  have ee: "finishes (evaluate_expression_fuel (Suc n) s p)"
    if "3 * (length s + 1 - p) + 3 \<le> Suc n" for p
    using that
    apply (subst evaluate_expression_fuel.simps(2))
    apply (intro finishes_intros ih)
    apply (auto
         dest!: char_at_cases returns_get_natural returns_digits returns_evaluate_term
           returns_term_loop returns_evaluate_expression returns_expression_loop)
    done
  have el: "finishes (expression_loop_fuel (Suc n) s a p)"
    if "3 * (length s + 1 - p) + 1 \<le> Suc n" for a p
    using that
    apply (subst expression_loop_fuel.simps(2))
    apply (intro finishes_intros ih)
    apply (auto
         dest!: char_at_cases returns_get_natural returns_digits returns_evaluate_term
           returns_term_loop returns_evaluate_expression returns_expression_loop)
    done
  show ?case
    by (intro conjI gn [THEN impI] dg [THEN impI] et [THEN impI]
        tl [THEN impI] ee [THEN impI] el [THEN impI])
qed

section \<open>Termination: a linear budget is enough\<close>

text \<open>
  With the budget \<open>fuel s\<close> every call ends (\<open>fuel_enough\<close>), so the functions without
  a budget satisfy the equations of the source, with its loops unrolled once.
\<close>

lemma below_chain:
  assumes "\<And>n. below (f n) (f (Suc n))"
  shows "n \<le> m \<Longrightarrow> below (f n) (f m)"
proof (induction m)
  case 0
  then show ?case by (simp add: below_refl)
next
  case (Suc m)
  show ?case
  proof (cases "n = Suc m")
    case True
    then show ?thesis by (simp add: below_refl)
  next
    case False
    with Suc have "below (f n) (f m)" by simp
    with assms [of m] show ?thesis by (auto simp: below_def)
  qed
qed

lemma finishes_stable:
  assumes "\<And>n. below (f n) (f (Suc n))" and "finishes (f n)" and "n \<le> m"
  shows "f m = f n"
  using below_chain [of f n m, OF assms(1) assms(3)] assms(2)
  by (auto simp: below_def finishes_def)

lemma fuel_stable:
  assumes "fuel s \<le> n"
  shows "get_natural_fuel n s p = get_natural s p"
    and "digits_fuel n s a p = digits s a p"
    and "evaluate_term_fuel n s p = evaluate_term s p"
    and "term_loop_fuel n s a p = term_loop s a p"
    and "evaluate_expression_fuel n s p = evaluate_expression s p"
    and "expression_loop_fuel n s a p = expression_loop s a p"
proof -
  have b: "3 * (length s + 1 - p) + 3 \<le> fuel s" by (simp add: fuel_def)
  show "get_natural_fuel n s p = get_natural s p"
    unfolding get_natural_def
    by (rule finishes_stable [where f = "\<lambda>n. get_natural_fuel n s p"])
      (use b assms fuel_enough [of s p "fuel s" a] fuel_Suc_below [of _ s p a] in auto)
  show "digits_fuel n s a p = digits s a p"
    unfolding digits_def
    by (rule finishes_stable [where f = "\<lambda>n. digits_fuel n s a p"])
      (use b assms fuel_enough [of s p "fuel s" a] fuel_Suc_below [of _ s p a] in auto)
  show "evaluate_term_fuel n s p = evaluate_term s p"
    unfolding evaluate_term_def
    by (rule finishes_stable [where f = "\<lambda>n. evaluate_term_fuel n s p"])
      (use b assms fuel_enough [of s p "fuel s" a] fuel_Suc_below [of _ s p a] in auto)
  show "term_loop_fuel n s a p = term_loop s a p"
    unfolding term_loop_def
    by (rule finishes_stable [where f = "\<lambda>n. term_loop_fuel n s a p"])
      (use b assms fuel_enough [of s p "fuel s" a] fuel_Suc_below [of _ s p a] in auto)
  show "evaluate_expression_fuel n s p = evaluate_expression s p"
    unfolding evaluate_expression_def
    by (rule finishes_stable [where f = "\<lambda>n. evaluate_expression_fuel n s p"])
      (use b assms fuel_enough [of s p "fuel s" a] fuel_Suc_below [of _ s p a] in auto)
  show "expression_loop_fuel n s a p = expression_loop s a p"
    unfolding expression_loop_def
    by (rule finishes_stable [where f = "\<lambda>n. expression_loop_fuel n s a p"])
      (use b assms fuel_enough [of s p "fuel s" a] fuel_Suc_below [of _ s p a] in auto)
qed

lemma get_natural_unfold:
  "get_natural expr position =
     check (char_at expr position) (\<lambda>c0.
       let sign = (if c0 = CHR ''-'' then - 1 else 1);
           position1 = (if c0 = CHR ''-'' then position + 1 else position)
       in check (char_at expr position1) (\<lambda>c1.
         if c1 = CHR ''('' then
           and_then (evaluate_expression expr (position1 + 1)) (\<lambda>(natural, position2).
             check (int_result (natural * sign)) (\<lambda>r. Some (Inr (r, position2 + 1))))
         else
           and_then (digits expr 0 position1) (\<lambda>(natural, position2).
             check (int_result (natural * sign)) (\<lambda>r. Some (Inr (r, position2))))))"
proof -
  have "get_natural expr position = get_natural_fuel (Suc (fuel expr)) expr position"
    by (simp add: fuel_stable)
  then show ?thesis
    by (simp only: get_natural_fuel.simps(2) evaluate_expression_def digits_def)
qed

lemma digits_unfold:
  "digits expr natural position =
     check (char_at expr position) (\<lambda>c.
       if isdigit c then
         check (int_result (natural * 10)) (\<lambda>a.
         check (int_result (a + char_code c)) (\<lambda>b.
         check (int_result (b - char_code CHR ''0'')) (\<lambda>natural'.
           if position + 1 \<ge> length expr then Some (Inr (natural', position + 1))
           else digits expr natural' (position + 1))))
       else Some (Inr (natural, position)))"
proof -
  have "digits expr natural position = digits_fuel (Suc (fuel expr)) expr natural position"
    by (simp add: fuel_stable)
  then show ?thesis
    by (simp only: digits_fuel.simps(2) digits_def)
qed

lemma evaluate_term_unfold:
  "evaluate_term expr position =
     and_then (get_natural expr position) (\<lambda>(result, position1).
       term_loop expr result position1)"
proof -
  have "evaluate_term expr position = evaluate_term_fuel (Suc (fuel expr)) expr position"
    by (simp add: fuel_stable)
  then show ?thesis
    by (simp only: evaluate_term_fuel.simps(2) get_natural_def term_loop_def)
qed

lemma term_loop_unfold:
  "term_loop expr result position =
     check (char_at expr position) (\<lambda>operator.
       if operator = CHR ''*'' then
         and_then (get_natural expr (position + 1)) (\<lambda>(operand, position1).
           check (int_result (result * operand)) (\<lambda>result'.
             term_loop expr result' position1))
       else if operator = CHR ''/'' then
         and_then (get_natural expr (position + 1)) (\<lambda>(operand, position1).
           if operand = 0 then Some (Inl Division_By_Zero)
           else check (int_result (int_quotient result operand)) (\<lambda>result'.
             term_loop expr result' position1))
       else Some (Inr (result, position)))"
proof -
  have "term_loop expr result position = term_loop_fuel (Suc (fuel expr)) expr result position"
    by (simp add: fuel_stable)
  then show ?thesis
    by (simp only: term_loop_fuel.simps(2) get_natural_def term_loop_def)
qed

lemma evaluate_expression_unfold:
  "evaluate_expression expr position =
     and_then (evaluate_term expr position) (\<lambda>(result, position1).
       expression_loop expr result position1)"
proof -
  have "evaluate_expression expr position = evaluate_expression_fuel (Suc (fuel expr)) expr position"
    by (simp add: fuel_stable)
  then show ?thesis
    by (simp only: evaluate_expression_fuel.simps(2) evaluate_term_def expression_loop_def)
qed

lemma expression_loop_unfold:
  "expression_loop expr result position =
     check (char_at expr position) (\<lambda>operator.
       if operator = CHR ''+'' then
         and_then (evaluate_term expr (position + 1)) (\<lambda>(operand, position1).
           check (int_result (result + operand)) (\<lambda>result'.
             expression_loop expr result' position1))
       else if operator = CHR ''-'' then
         and_then (evaluate_term expr (position + 1)) (\<lambda>(operand, position1).
           check (int_result (result - operand)) (\<lambda>result'.
             expression_loop expr result' position1))
       else Some (Inr (result, position)))"
proof -
  have "expression_loop expr result position = expression_loop_fuel (Suc (fuel expr)) expr result position"
    by (simp add: fuel_stable)
  then show ?thesis
    by (simp only: expression_loop_fuel.simps(2) evaluate_term_def expression_loop_def)
qed

section \<open>Claims about single calls\<close>

lemma get_natural_finishes: "finishes (get_natural s p)"
  using fuel_enough [of s p "fuel s"] by (simp add: get_natural_def fuel_def)

lemma evaluate_term_finishes: "finishes (evaluate_term s p)"
  using fuel_enough [of s p "fuel s"] by (simp add: evaluate_term_def fuel_def)

lemma evaluate_expression_finishes: "finishes (evaluate_expression s p)"
  using fuel_enough [of s p "fuel s"] by (simp add: evaluate_expression_def fuel_def)

lemma calculate_finishes: "finishes (calculate s)"
  unfolding calculate_def
  by (intro finishes_intros evaluate_expression_finishes)

text \<open>
  Claim C10. On \<^verbatim>\<open>--3\<close> the factor parser consumes the first minus and returns 0 with the
  cursor at 1; the expression loop takes the second minus as a subtraction; the call
  returns -3, not 3.
\<close>
theorem double_minus:
  "get_natural ''--3'' 0 = Some (Inr (0, 1)) \<and>
   expression_loop ''--3'' 0 1 = Some (Inr (- 3, 3)) \<and>
   calculate ''--3'' = Some (Inr (- 3))"
  by code_simp

text \<open>
  Claim C4. Where the current character is neither a minus, an opening parenthesis nor a
  digit (the terminating NUL included), the factor parser returns the value 0, leaves the
  cursor where it was, and reports no error.
\<close>
theorem zero_fallback:
  assumes "char_at expr position = Inr c"
    and "c \<noteq> CHR ''-''" and "c \<noteq> CHR ''(''" and "\<not> isdigit c"
  shows "get_natural expr position = Some (Inr (0, position))"
  using assms
  by (simp add: get_natural_unfold digits_unfold int_result_def INT_MIN_def INT_MAX_def)

theorem zero_fallback_witness:
  "char_at ''1+*2'' 2 = Inr CHR ''*'' \<and> get_natural ''1+*2'' 2 = Some (Inr (0, 2))"
proof -
  have c: "char_at ''1+*2'' 2 = Inr CHR ''*''" by code_simp
  have d: "\<not> isdigit CHR ''*''" by code_simp
  show ?thesis using zero_fallback [OF c _ _ d] c by simp
qed

text \<open>
  What holds of the cursor on every text: a call that returns has not moved it back, the
  term and expression levels leave it inside the text or on the terminating NUL, and the
  factor level at most one position behind the NUL.
\<close>

lemma get_natural_returns:
  "get_natural s p = Some (Inr (v, p')) \<Longrightarrow> p \<le> p' \<and> p' \<le> length s + 1 \<and> in_int_range v"
  unfolding get_natural_def by (rule returns_get_natural)

lemma evaluate_term_returns:
  "evaluate_term s p = Some (Inr (v, p')) \<Longrightarrow> p \<le> p' \<and> p' \<le> length s \<and> in_int_range v"
  unfolding evaluate_term_def by (rule returns_evaluate_term)

lemma evaluate_expression_returns:
  "evaluate_expression s p = Some (Inr (v, p')) \<Longrightarrow> p \<le> p' \<and> p' \<le> length s \<and> in_int_range v"
  unfolding evaluate_expression_def by (rule returns_evaluate_expression)

lemma int_result_in_range [simp]: "in_int_range x \<Longrightarrow> int_result x = Inr x"
  by (simp add: int_result_def in_int_range_def)

lemma in_int_range_uminus: "in_int_range v \<Longrightarrow> v \<noteq> INT_MIN \<Longrightarrow> in_int_range (- v)"
  by (auto simp: in_int_range_def INT_MIN_def INT_MAX_def)

text \<open>
  Claim C6. At an opening parenthesis (with or without a minus before it) the factor
  parser steps over it, evaluates an expression from there and then moves the cursor one
  further, whatever character is there: the statement has no condition on the character
  at the position \<open>p'\<close> where the inner expression stopped, so a character other than a
  closing parenthesis, or the end of the text, is stepped over just as well and no error
  is reported.
\<close>
theorem group_steps_over_one_character:
  "(char_at expr position = Inr CHR ''('' \<longrightarrow>
      evaluate_expression expr (position + 1) = Some (Inr (v, p')) \<longrightarrow>
      get_natural expr position = Some (Inr (v, p' + 1))) \<and>
   (char_at expr position = Inr CHR ''-'' \<longrightarrow> char_at expr (position + 1) = Inr CHR ''('' \<longrightarrow>
      evaluate_expression expr (position + 2) = Some (Inr (v, p')) \<longrightarrow> v \<noteq> INT_MIN \<longrightarrow>
      get_natural expr position = Some (Inr (- v, p' + 1)))"
proof (intro conjI impI)
  assume "char_at expr position = Inr CHR ''(''"
    and e: "evaluate_expression expr (position + 1) = Some (Inr (v, p'))"
  moreover from e have "in_int_range v" by (simp add: evaluate_expression_returns)
  ultimately show "get_natural expr position = Some (Inr (v, p' + 1))"
    by (simp add: get_natural_unfold)
next
  assume "char_at expr position = Inr CHR ''-''" "char_at expr (position + 1) = Inr CHR ''(''"
    and e: "evaluate_expression expr (position + 2) = Some (Inr (v, p'))" and "v \<noteq> INT_MIN"
  moreover from e have "in_int_range v" by (simp add: evaluate_expression_returns)
  ultimately show "get_natural expr position = Some (Inr (- v, p' + 1))"
    by (simp add: get_natural_unfold in_int_range_uminus)
qed

theorem group_steps_over_one_character_witness:
  "char_at ''(1+2x'' 0 = Inr CHR ''('' \<and> evaluate_expression ''(1+2x'' (0 + 1) = Some (Inr (3, 4)) \<and>
   char_at ''(1+2x'' 4 = Inr CHR ''x'' \<and> get_natural ''(1+2x'' 0 = Some (Inr (3, 4 + 1)) \<and>
   char_at ''-(7'' 0 = Inr CHR ''-'' \<and> char_at ''-(7'' (0 + 1) = Inr CHR ''('' \<and>
   evaluate_expression ''-(7'' (0 + 2) = Some (Inr (7, 3)) \<and> 7 \<noteq> INT_MIN \<and>
   length ''-(7'' = 3 \<and> get_natural ''-(7'' 0 = Some (Inr (- 7, 3 + 1))"
proof -
  have a: "char_at ''(1+2x'' 0 = Inr CHR ''(''" by code_simp
  have b: "evaluate_expression ''(1+2x'' (0 + 1) = Some (Inr (3, 4))" by code_simp
  have c: "char_at ''(1+2x'' 4 = Inr CHR ''x''" by code_simp
  have d: "char_at ''-(7'' 0 = Inr CHR ''-''" by code_simp
  have e: "char_at ''-(7'' (0 + 1) = Inr CHR ''(''" by code_simp
  have f: "evaluate_expression ''-(7'' (0 + 2) = Some (Inr (7, 3))" by code_simp
  have g: "7 \<noteq> INT_MIN" by (simp add: INT_MIN_def)
  from group_steps_over_one_character [of "''(1+2x''" 0 3 4] a b
  have h: "get_natural ''(1+2x'' 0 = Some (Inr (3, 4 + 1))" by blast
  from group_steps_over_one_character [of "''-(7''" 0 7 3] d e f g
  have i: "get_natural ''-(7'' 0 = Some (Inr (- 7, 3 + 1))" by blast
  show ?thesis using a b c d e f g h i by simp
qed

text \<open>
  Claim C7, at the failing input \<^verbatim>\<open>(1\<close>. The text has length 2. The factor parser returns
  with the cursor at 3, behind the terminating NUL, and the term loop then reads there.
  The same happens on \<^verbatim>\<open>(1*(-1+2*1)/3\<close>, an input of the repository's own
  \<^verbatim>\<open>test_calculate\<close>: length 13, cursor 14.
\<close>
theorem cursor_passes_the_end:
  "length ''(1'' = 2 \<and> get_natural ''(1'' 0 = Some (Inr (1, 3)) \<and>
   char_at ''(1'' 3 = Inl Read_Past_End \<and> calculate ''(1'' = Some (Inl Read_Past_End) \<and>
   length ''(1*(-1+2*1)/3'' = 13 \<and> get_natural ''(1*(-1+2*1)/3'' 0 = Some (Inr (0, 14)) \<and>
   calculate ''(1*(-1+2*1)/3'' = Some (Inl Read_Past_End)"
  by code_simp

section \<open>The check for wrong characters\<close>

lemma right_chars_finds:
  "j \<le> i \<Longrightarrow> i < bound \<Longrightarrow> i < length s \<Longrightarrow> \<not> is_right_char (s ! i) \<Longrightarrow>
   right_chars s bound j = Inl Wrong_Character"
proof (induction "i - j" arbitrary: j)
  case 0
  then have "j = i" by simp
  with 0 show ?case by (simp add: right_chars.simps char_at_def)
next
  case (Suc n)
  then have "j < i" "j < bound" "j < length s" by simp_all
  moreover have "right_chars s bound (j + 1) = Inl Wrong_Character"
    using Suc by (intro Suc.hyps(1)) simp_all
  ultimately show ?case
    by (subst right_chars.simps) (simp add: char_at_def)
qed

text \<open>
  Claim C2, as stated, fails at \<^verbatim>\<open>1+1a\<close>: the last character is outside the allowed set,
  and the call returns 2. The loop stops one short of the length: \<^verbatim>\<open>main\<close> reads the line
  with \<^verbatim>\<open>fgets\<close>, which keeps the newline, and the newline is no allowed character.
\<close>
theorem last_character_unchecked:
  "\<not> is_right_char (''1+1a'' ! 3) \<and> 3 < length ''1+1a'' \<and> calculate ''1+1a'' = Some (Inr 2)"
  by code_simp

text \<open>
  Claim C2, amended. If a character at any position but the last is outside the set of
  digits, \<^verbatim>\<open>+ - * / ( )\<close>, the call ends with the wrong-character failure, whatever the
  parser would have made of the text; the last character is not looked at.
\<close>
theorem wrong_character_rejected:
  assumes "i + 1 < length expression" and "\<not> is_right_char (expression ! i)"
  shows "calculate expression = Some (Inl Wrong_Character)"
proof -
  from assms have "i < strlen_minus_one expression" "i < length expression"
    by (auto simp: strlen_minus_one_def)
  then have "right_chars expression (strlen_minus_one expression) 0 = Inl Wrong_Character"
    using assms(2) by (intro right_chars_finds [of 0 i]) simp_all
  then show ?thesis by (simp add: calculate_def)
qed

theorem wrong_character_rejected_witness:
  "2 + 1 < length ''1/a0'' \<and> \<not> is_right_char (''1/a0'' ! 2) \<and>
   calculate ''1/a0'' = Some (Inl Wrong_Character)"
proof -
  have a: "2 + 1 < length ''1/a0''" by simp
  have b: "\<not> is_right_char (''1/a0'' ! 2)" by code_simp
  show ?thesis using wrong_character_rejected [OF a b] a b by simp
qed

text \<open>The empty text: the bound of the loop wraps around, and the NUL is the wrong character.\<close>

lemma calculate_empty: "calculate [] = Some (Inl Wrong_Character)"
  by (simp add: calculate_def strlen_minus_one_def right_chars.simps char_at_def
      is_right_char_def isdigit_def char_code_def)

section \<open>The parser on the text of a syntax tree\<close>

text \<open>
  On the text of a syntax tree, placed anywhere in a longer text, each grammar level
  performs the computation \<open>run_factor\<close>, \<open>run_term\<close> or \<open>run_expression\<close> of the tree
  and leaves the cursor behind the text of the tree (lemma \<open>parse_text\<close>).
\<close>

lemma char_at_append: "char_at (pre @ rest) (length pre) = Inr (first_char rest)"
  by (cases rest) (simp_all add: char_at_def first_char_def)

lemma char_at_append_plus:
  "char_at (pre @ mid @ rest) (length pre + length mid) = Inr (first_char rest)"
  using char_at_append [of "pre @ mid" rest] by simp

lemma check_sum_then: "check (sum_then r f) g = check r (\<lambda>x. check (f x) g)"
  by (cases r) (simp_all add: sum_then_def)

lemma and_then_check: "and_then (check r g) h = check r (\<lambda>x. and_then (g x) h)"
  by (cases r) simp_all

lemma char_code_digit_char: "char_code (digit_char d) = 48 + digit_value d"
  by (cases d) (simp_all add: char_code_def)

lemma isdigit_digit_char [simp]: "isdigit (digit_char d)"
  by (simp add: isdigit_def char_code_digit_char) (cases d; simp)

lemma digit_char_neq [simp]:
  "digit_char d \<noteq> CHR ''-''" "digit_char d \<noteq> CHR ''(''"
  by (cases d; simp)+

lemma digits_text:
  "\<not> isdigit (first_char rest) \<Longrightarrow>
   digits (pre @ map digit_char ds @ rest) natural (length pre) =
     check (run_digits natural ds) (\<lambda>v. Some (Inr (v, length pre + length ds)))"
proof (induction ds arbitrary: pre natural)
  case Nil
  then show ?case
    by (subst digits_unfold) (simp add: char_at_append)
next
  case (Cons d ds)
  let ?s = "pre @ map digit_char (d # ds) @ rest"
  have c: "char_at ?s (length pre) = Inr (digit_char d)"
    using char_at_append [of pre "map digit_char (d # ds) @ rest"] by (simp add: first_char_def)
  have ih: "digits ?s n (length pre + 1) =
      check (run_digits n ds) (\<lambda>v. Some (Inr (v, length pre + 1 + length ds)))" for n
    using Cons.IH [of "pre @ [digit_char d]" n, OF Cons.prems] by simp
  have last: "run_digits n ds = Inr n \<and> length ds = 0" if "length ?s \<le> length pre + 1" for n
    using that by (cases ds) simp_all
  show ?case
    apply (subst digits_unfold)
    apply (simp only: c check_simps isdigit_digit_char if_True run_digits.simps check_sum_then)
    apply (intro arg_cong2 [where f = check] refl ext)
    apply (auto simp: ih [simplified] dest: last)
    done
qed


lemma term_loop_stop:
  "char_at s p = Inr c \<Longrightarrow> c \<noteq> CHR ''*'' \<Longrightarrow> c \<noteq> CHR ''/'' \<Longrightarrow>
   term_loop s v p = Some (Inr (v, p))"
  by (subst term_loop_unfold) simp

lemma term_loop_times:
  "char_at s p = Inr CHR ''*'' \<Longrightarrow>
   term_loop s v p =
     and_then (get_natural s (p + 1)) (\<lambda>(operand, p1).
       check (int_result (v * operand)) (\<lambda>r. term_loop s r p1))"
  by (subst term_loop_unfold) simp

lemma term_loop_divide:
  "char_at s p = Inr CHR ''/'' \<Longrightarrow>
   term_loop s v p =
     and_then (get_natural s (p + 1)) (\<lambda>(operand, p1).
       if operand = 0 then Some (Inl Division_By_Zero)
       else check (int_result (int_quotient v operand)) (\<lambda>r. term_loop s r p1))"
  by (subst term_loop_unfold) simp

lemma expression_loop_stop:
  "char_at s p = Inr c \<Longrightarrow> c \<noteq> CHR ''+'' \<Longrightarrow> c \<noteq> CHR ''-'' \<Longrightarrow>
   expression_loop s v p = Some (Inr (v, p))"
  by (subst expression_loop_unfold) simp

lemma expression_loop_plus:
  "char_at s p = Inr CHR ''+'' \<Longrightarrow>
   expression_loop s v p =
     and_then (evaluate_term s (p + 1)) (\<lambda>(operand, p1).
       check (int_result (v + operand)) (\<lambda>r. expression_loop s r p1))"
  by (subst expression_loop_unfold) simp

lemma expression_loop_minus:
  "char_at s p = Inr CHR ''-'' \<Longrightarrow>
   expression_loop s v p =
     and_then (evaluate_term s (p + 1)) (\<lambda>(operand, p1).
       check (int_result (v - operand)) (\<lambda>r. expression_loop s r p1))"
  by (subst expression_loop_unfold) simp

lemma get_natural_number:
  assumes "\<not> isdigit (first_char rest)"
  shows "get_natural (pre @ text_factor (Number negative d ds) @ rest) (length pre) =
     check (run_factor (Number negative d ds))
       (\<lambda>v. Some (Inr (v, length pre + length (text_factor (Number negative d ds)))))"
proof (cases negative)
  case True
  let ?s = "pre @ CHR ''-'' # map digit_char (d # ds) @ rest"
  have c0: "char_at ?s (length pre) = Inr CHR ''-''"
    using char_at_append [of pre "CHR ''-'' # map digit_char (d # ds) @ rest"]
    by (simp add: first_char_def)
  have c1: "char_at ?s (length pre + 1) = Inr (digit_char d)"
    using char_at_append [of "pre @ ''-''" "map digit_char (d # ds) @ rest"]
    by (simp add: first_char_def)
  have dg: "digits ?s 0 (length pre + 1) =
      check (run_digits 0 (d # ds)) (\<lambda>v. Some (Inr (v, length pre + 1 + length (d # ds))))"
    using digits_text [OF assms, of "pre @ ''-''" "d # ds" 0] by simp
  show ?thesis
    using c0 c1 dg True
    by (subst get_natural_unfold)
      (simp add: sign_text_def check_sum_then and_then_check sign_factor_def del: run_digits.simps)
next
  case False
  let ?s = "pre @ map digit_char (d # ds) @ rest"
  have c0: "char_at ?s (length pre) = Inr (digit_char d)"
    using char_at_append [of pre "map digit_char (d # ds) @ rest"]
    by (simp add: first_char_def)
  have dg: "digits ?s 0 (length pre) =
      check (run_digits 0 (d # ds)) (\<lambda>v. Some (Inr (v, length pre + length (d # ds))))"
    using digits_text [OF assms, of pre "d # ds" 0] by simp
  show ?thesis
    using c0 dg False
    by (subst get_natural_unfold)
      (simp add: sign_text_def check_sum_then and_then_check sign_factor_def del: run_digits.simps)
qed


lemma first_char_Cons [simp]: "first_char (c # cs) = c"
  by (simp add: first_char_def)

lemma get_natural_group:
  assumes E: "\<And>pre rest. \<not> isdigit (first_char rest) \<Longrightarrow> first_char rest \<noteq> CHR ''*'' \<Longrightarrow>
      first_char rest \<noteq> CHR ''/'' \<Longrightarrow>
      evaluate_expression (pre @ text_expression e @ rest) (length pre) =
        check (run_expression e) (\<lambda>v. expression_loop (pre @ text_expression e @ rest) v
          (length pre + length (text_expression e)))"
  shows "get_natural (pre @ text_factor (Group negative e) @ rest) (length pre) =
     check (run_factor (Group negative e))
       (\<lambda>v. Some (Inr (v, length pre + length (text_factor (Group negative e)))))"
proof -
  let ?m = "sign_text negative @ ''(''"
  let ?s = "pre @ text_factor (Group negative e) @ rest"
  let ?q = "length pre + length ?m + length (text_expression e)"
  have s: "?s = (pre @ ?m) @ text_expression e @ (CHR '')'' # rest)"
    by simp
  have d: "\<not> isdigit (CHR '')'')"
    by (simp add: isdigit_def char_code_def)
  have ev: "evaluate_expression ?s (length pre + length ?m) =
      check (run_expression e) (\<lambda>v. expression_loop ?s v ?q)"
    using E [of "CHR '')'' # rest" "pre @ ?m"] d unfolding s by (simp add: add.assoc)
  have cl: "char_at ?s ?q = Inr CHR '')''"
    using char_at_append [of "(pre @ ?m) @ text_expression e" "CHR '')'' # rest"]
    unfolding s by (simp add: add.assoc)
  have el: "expression_loop ?s v ?q = Some (Inr (v, ?q))" for v
    by (rule expression_loop_stop [OF cl]) simp_all
  have ev': "evaluate_expression ?s (length pre + length ?m) =
      check (run_expression e) (\<lambda>v. Some (Inr (v, ?q)))"
    unfolding ev el ..
  show ?thesis
  proof (cases negative)
    case True
    have c0: "char_at ?s (length pre) = Inr CHR ''-''"
      using char_at_append [of pre "text_factor (Group negative e) @ rest"] True
      by (simp add: sign_text_def)
    have c1: "char_at ?s (length pre + 1) = Inr CHR ''(''"
      using char_at_append [of "pre @ ''-''" "''('' @ text_expression e @ '')'' @ rest"] True
      by (simp add: sign_text_def)
    show ?thesis
      using c0 c1 ev' True
      by (subst get_natural_unfold)
        (simp add: sign_text_def check_sum_then and_then_check sign_factor_def)
  next
    case False
    have c0: "char_at ?s (length pre) = Inr CHR ''(''"
      using char_at_append [of pre "text_factor (Group negative e) @ rest"] False
      by (simp add: sign_text_def)
    show ?thesis
      using c0 ev' False
      by (subst get_natural_unfold)
        (simp add: sign_text_def check_sum_then and_then_check sign_factor_def)
  qed
qed


lemma evaluate_term_single:
  assumes F: "\<And>pre rest. \<not> isdigit (first_char rest) \<Longrightarrow>
      get_natural (pre @ text_factor f @ rest) (length pre) =
        check (run_factor f) (\<lambda>v. Some (Inr (v, length pre + length (text_factor f))))"
    and r: "\<not> isdigit (first_char rest)"
  shows "evaluate_term (pre @ text_term (Single_Factor f) @ rest) (length pre) =
     check (run_term (Single_Factor f)) (\<lambda>v. term_loop (pre @ text_term (Single_Factor f) @ rest) v
       (length pre + length (text_term (Single_Factor f))))"
  by (subst evaluate_term_unfold) (simp add: F [OF r] and_then_check)

lemma evaluate_term_times:
  assumes T: "\<And>pre rest. \<not> isdigit (first_char rest) \<Longrightarrow>
      evaluate_term (pre @ text_term t @ rest) (length pre) =
        check (run_term t) (\<lambda>v. term_loop (pre @ text_term t @ rest) v
          (length pre + length (text_term t)))"
    and F: "\<And>pre rest. \<not> isdigit (first_char rest) \<Longrightarrow>
      get_natural (pre @ text_factor f @ rest) (length pre) =
        check (run_factor f) (\<lambda>v. Some (Inr (v, length pre + length (text_factor f))))"
    and r: "\<not> isdigit (first_char rest)"
  shows "evaluate_term (pre @ text_term (Multiply t f) @ rest) (length pre) =
     check (run_term (Multiply t f)) (\<lambda>v. term_loop (pre @ text_term (Multiply t f) @ rest) v
       (length pre + length (text_term (Multiply t f))))"
proof -
  let ?s = "pre @ text_term (Multiply t f) @ rest"
  let ?qt = "length pre + length (text_term t)"
  let ?qf = "?qt + 1 + length (text_factor f)"
  have s1: "?s = pre @ text_term t @ (CHR ''*'' # text_factor f @ rest)"
    by simp
  have s2: "?s = (pre @ text_term t @ ''*'') @ text_factor f @ rest"
    by simp
  have d: "\<not> isdigit (CHR ''*'')"
    by (simp add: isdigit_def char_code_def)
  have et: "evaluate_term ?s (length pre) = check (run_term t) (\<lambda>v. term_loop ?s v ?qt)"
    using T [of "CHR ''*'' # text_factor f @ rest" pre] d unfolding s1 by simp
  have c: "char_at ?s ?qt = Inr CHR ''*''"
    using char_at_append [of "pre @ text_term t" "CHR ''*'' # text_factor f @ rest"]
    unfolding s1 by simp
  have gn: "get_natural ?s (?qt + 1) = check (run_factor f) (\<lambda>w. Some (Inr (w, ?qf)))"
    using F [of rest "pre @ text_term t @ ''*''", OF r] unfolding s2 by (simp add: add.assoc)
  have tl: "term_loop ?s v ?qt =
      check (run_factor f) (\<lambda>w. check (int_result (v * w)) (\<lambda>r. term_loop ?s r ?qf))" for v
    unfolding term_loop_times [OF c] gn by (simp add: and_then_check)
  have q: "length pre + length (text_term (Multiply t f)) = ?qf"
    by simp
  show ?thesis
    unfolding et tl q by (simp add: check_sum_then)
qed

lemma evaluate_term_divide:
  assumes T: "\<And>pre rest. \<not> isdigit (first_char rest) \<Longrightarrow>
      evaluate_term (pre @ text_term t @ rest) (length pre) =
        check (run_term t) (\<lambda>v. term_loop (pre @ text_term t @ rest) v
          (length pre + length (text_term t)))"
    and F: "\<And>pre rest. \<not> isdigit (first_char rest) \<Longrightarrow>
      get_natural (pre @ text_factor f @ rest) (length pre) =
        check (run_factor f) (\<lambda>v. Some (Inr (v, length pre + length (text_factor f))))"
    and r: "\<not> isdigit (first_char rest)"
  shows "evaluate_term (pre @ text_term (Divide t f) @ rest) (length pre) =
     check (run_term (Divide t f)) (\<lambda>v. term_loop (pre @ text_term (Divide t f) @ rest) v
       (length pre + length (text_term (Divide t f))))"
proof -
  let ?s = "pre @ text_term (Divide t f) @ rest"
  let ?qt = "length pre + length (text_term t)"
  let ?qf = "?qt + 1 + length (text_factor f)"
  have s1: "?s = pre @ text_term t @ (CHR ''/'' # text_factor f @ rest)"
    by simp
  have s2: "?s = (pre @ text_term t @ ''/'') @ text_factor f @ rest"
    by simp
  have d: "\<not> isdigit (CHR ''/'')"
    by (simp add: isdigit_def char_code_def)
  have et: "evaluate_term ?s (length pre) = check (run_term t) (\<lambda>v. term_loop ?s v ?qt)"
    using T [of "CHR ''/'' # text_factor f @ rest" pre] d unfolding s1 by simp
  have c: "char_at ?s ?qt = Inr CHR ''/''"
    using char_at_append [of "pre @ text_term t" "CHR ''/'' # text_factor f @ rest"]
    unfolding s1 by simp
  have gn: "get_natural ?s (?qt + 1) = check (run_factor f) (\<lambda>w. Some (Inr (w, ?qf)))"
    using F [of rest "pre @ text_term t @ ''/''", OF r] unfolding s2 by (simp add: add.assoc)
  have tl: "term_loop ?s v ?qt =
      check (run_factor f) (\<lambda>w. if w = 0 then Some (Inl Division_By_Zero)
        else check (int_result (int_quotient v w)) (\<lambda>r. term_loop ?s r ?qf))" for v
    unfolding term_loop_divide [OF c] gn by (simp add: and_then_check cong: if_cong)
  have q: "length pre + length (text_term (Divide t f)) = ?qf"
    by simp
  show ?thesis
    unfolding et tl q by (simp add: check_sum_then if_distrib [where f = "\<lambda>x. check x _"] cong: if_cong)
qed


lemma evaluate_term_returns_at_end:
  assumes T: "\<And>pre rest. \<not> isdigit (first_char rest) \<Longrightarrow>
      evaluate_term (pre @ text_term t @ rest) (length pre) =
        check (run_term t) (\<lambda>v. term_loop (pre @ text_term t @ rest) v
          (length pre + length (text_term t)))"
    and r: "\<not> isdigit (first_char rest)" "first_char rest \<noteq> CHR ''*''" "first_char rest \<noteq> CHR ''/''"
  shows "evaluate_term (pre @ text_term t @ rest) (length pre) =
     check (run_term t) (\<lambda>v. Some (Inr (v, length pre + length (text_term t))))"
proof -
  let ?s = "pre @ text_term t @ rest"
  have c: "char_at ?s (length pre + length (text_term t)) = Inr (first_char rest)"
    by (rule char_at_append_plus)
  have tl: "term_loop ?s v (length pre + length (text_term t)) =
      Some (Inr (v, length pre + length (text_term t)))" for v
    by (rule term_loop_stop [OF c r(2) r(3)])
  show ?thesis
    unfolding T [OF r(1)] tl ..
qed

lemma evaluate_expression_single:
  assumes T: "\<And>pre rest. \<not> isdigit (first_char rest) \<Longrightarrow>
      evaluate_term (pre @ text_term t @ rest) (length pre) =
        check (run_term t) (\<lambda>v. term_loop (pre @ text_term t @ rest) v
          (length pre + length (text_term t)))"
    and r: "\<not> isdigit (first_char rest)" "first_char rest \<noteq> CHR ''*''" "first_char rest \<noteq> CHR ''/''"
  shows "evaluate_expression (pre @ text_expression (Single_Term t) @ rest) (length pre) =
     check (run_expression (Single_Term t))
       (\<lambda>v. expression_loop (pre @ text_expression (Single_Term t) @ rest) v
         (length pre + length (text_expression (Single_Term t))))"
  by (subst evaluate_expression_unfold)
    (simp add: evaluate_term_returns_at_end [OF T r] and_then_check)

lemma evaluate_expression_add:
  assumes E: "\<And>pre rest. \<not> isdigit (first_char rest) \<Longrightarrow> first_char rest \<noteq> CHR ''*'' \<Longrightarrow>
      first_char rest \<noteq> CHR ''/'' \<Longrightarrow>
      evaluate_expression (pre @ text_expression e @ rest) (length pre) =
        check (run_expression e) (\<lambda>v. expression_loop (pre @ text_expression e @ rest) v
          (length pre + length (text_expression e)))"
    and T: "\<And>pre rest. \<not> isdigit (first_char rest) \<Longrightarrow>
      evaluate_term (pre @ text_term t @ rest) (length pre) =
        check (run_term t) (\<lambda>v. term_loop (pre @ text_term t @ rest) v
          (length pre + length (text_term t)))"
    and r: "\<not> isdigit (first_char rest)" "first_char rest \<noteq> CHR ''*''" "first_char rest \<noteq> CHR ''/''"
  shows "evaluate_expression (pre @ text_expression (Add e t) @ rest) (length pre) =
     check (run_expression (Add e t))
       (\<lambda>v. expression_loop (pre @ text_expression (Add e t) @ rest) v
         (length pre + length (text_expression (Add e t))))"
proof -
  let ?s = "pre @ text_expression (Add e t) @ rest"
  let ?qe = "length pre + length (text_expression e)"
  let ?qt = "?qe + 1 + length (text_term t)"
  have s1: "?s = pre @ text_expression e @ (CHR ''+'' # text_term t @ rest)"
    by simp
  have s2: "?s = (pre @ text_expression e @ ''+'') @ text_term t @ rest"
    by simp
  have d: "\<not> isdigit (CHR ''+'')"
    by (simp add: isdigit_def char_code_def)
  have ee: "evaluate_expression ?s (length pre) =
      check (run_expression e) (\<lambda>v. expression_loop ?s v ?qe)"
    using E [of "CHR ''+'' # text_term t @ rest" pre] d unfolding s1 by simp
  have c: "char_at ?s ?qe = Inr CHR ''+''"
    using char_at_append [of "pre @ text_expression e" "CHR ''+'' # text_term t @ rest"]
    unfolding s1 by simp
  have et: "evaluate_term ?s (?qe + 1) = check (run_term t) (\<lambda>w. Some (Inr (w, ?qt)))"
    using evaluate_term_returns_at_end [OF T r, of "pre @ text_expression e @ ''+''"]
    unfolding s2 by (simp add: add.assoc)
  have el: "expression_loop ?s v ?qe =
      check (run_term t) (\<lambda>w. check (int_result (v + w)) (\<lambda>r. expression_loop ?s r ?qt))" for v
    unfolding expression_loop_plus [OF c] et by (simp add: and_then_check)
  have q: "length pre + length (text_expression (Add e t)) = ?qt"
    by simp
  show ?thesis
    unfolding ee el q by (simp add: check_sum_then)
qed

lemma evaluate_expression_subtract:
  assumes E: "\<And>pre rest. \<not> isdigit (first_char rest) \<Longrightarrow> first_char rest \<noteq> CHR ''*'' \<Longrightarrow>
      first_char rest \<noteq> CHR ''/'' \<Longrightarrow>
      evaluate_expression (pre @ text_expression e @ rest) (length pre) =
        check (run_expression e) (\<lambda>v. expression_loop (pre @ text_expression e @ rest) v
          (length pre + length (text_expression e)))"
    and T: "\<And>pre rest. \<not> isdigit (first_char rest) \<Longrightarrow>
      evaluate_term (pre @ text_term t @ rest) (length pre) =
        check (run_term t) (\<lambda>v. term_loop (pre @ text_term t @ rest) v
          (length pre + length (text_term t)))"
    and r: "\<not> isdigit (first_char rest)" "first_char rest \<noteq> CHR ''*''" "first_char rest \<noteq> CHR ''/''"
  shows "evaluate_expression (pre @ text_expression (Subtract e t) @ rest) (length pre) =
     check (run_expression (Subtract e t))
       (\<lambda>v. expression_loop (pre @ text_expression (Subtract e t) @ rest) v
         (length pre + length (text_expression (Subtract e t))))"
proof -
  let ?s = "pre @ text_expression (Subtract e t) @ rest"
  let ?qe = "length pre + length (text_expression e)"
  let ?qt = "?qe + 1 + length (text_term t)"
  have s1: "?s = pre @ text_expression e @ (CHR ''-'' # text_term t @ rest)"
    by simp
  have s2: "?s = (pre @ text_expression e @ ''-'') @ text_term t @ rest"
    by simp
  have d: "\<not> isdigit (CHR ''-'')"
    by (simp add: isdigit_def char_code_def)
  have ee: "evaluate_expression ?s (length pre) =
      check (run_expression e) (\<lambda>v. expression_loop ?s v ?qe)"
    using E [of "CHR ''-'' # text_term t @ rest" pre] d unfolding s1 by simp
  have c: "char_at ?s ?qe = Inr CHR ''-''"
    using char_at_append [of "pre @ text_expression e" "CHR ''-'' # text_term t @ rest"]
    unfolding s1 by simp
  have et: "evaluate_term ?s (?qe + 1) = check (run_term t) (\<lambda>w. Some (Inr (w, ?qt)))"
    using evaluate_term_returns_at_end [OF T r, of "pre @ text_expression e @ ''-''"]
    unfolding s2 by (simp add: add.assoc)
  have el: "expression_loop ?s v ?qe =
      check (run_term t) (\<lambda>w. check (int_result (v - w)) (\<lambda>r. expression_loop ?s r ?qt))" for v
    unfolding expression_loop_minus [OF c] et by (simp add: and_then_check)
  have q: "length pre + length (text_expression (Subtract e t)) = ?qt"
    by simp
  show ?thesis
    unfolding ee el q by (simp add: check_sum_then)
qed

lemma parse_text:
  fixes f :: factor_tree and t :: term_tree and e :: expression_tree
  shows "\<not> isdigit (first_char rest) \<Longrightarrow>
      get_natural (pre @ text_factor f @ rest) (length pre) =
        check (run_factor f) (\<lambda>v. Some (Inr (v, length pre + length (text_factor f))))"
    and "\<not> isdigit (first_char rest) \<Longrightarrow>
      evaluate_term (pre @ text_term t @ rest) (length pre) =
        check (run_term t) (\<lambda>v. term_loop (pre @ text_term t @ rest) v
          (length pre + length (text_term t)))"
    and "\<not> isdigit (first_char rest) \<Longrightarrow> first_char rest \<noteq> CHR ''*'' \<Longrightarrow>
      first_char rest \<noteq> CHR ''/'' \<Longrightarrow>
      evaluate_expression (pre @ text_expression e @ rest) (length pre) =
        check (run_expression e) (\<lambda>v. expression_loop (pre @ text_expression e @ rest) v
          (length pre + length (text_expression e)))"
proof (induction f and t and e arbitrary: pre rest and pre rest and pre rest)
  case (Number negative d ds)
  then show ?case by (rule get_natural_number)
next
  case (Group negative e)
  show ?case by (rule get_natural_group) (rule Group.IH)
next
  case (Single_Factor f)
  show ?case by (rule evaluate_term_single [OF Single_Factor.IH Single_Factor.prems])
next
  case (Multiply t f)
  show ?case by (rule evaluate_term_times [OF Multiply.IH Multiply.prems])
next
  case (Divide t f)
  show ?case by (rule evaluate_term_divide [OF Divide.IH Divide.prems])
next
  case (Single_Term t)
  show ?case by (rule evaluate_expression_single [OF Single_Term.IH Single_Term.prems])
next
  case (Add e t)
  show ?case by (rule evaluate_expression_add [OF Add.IH Add.prems])
next
  case (Subtract e t)
  show ?case by (rule evaluate_expression_subtract [OF Subtract.IH Subtract.prems])
qed

section \<open>The computation on a syntax tree and standard arithmetic\<close>

text \<open>
  The division of the code is the truncated quotient of the reference semantics. A
  computation that returns a value returns the value of the tree in standard arithmetic
  and has met no zero divisor (\<open>run_value\<close>); a tree without zero divisors whose numbers
  stay in the range of \<^verbatim>\<open>int\<close> is computed without a stop (\<open>within_value\<close>).
\<close>

lemma int_quotient_truncated:
  assumes "b \<noteq> 0"
  shows "int_quotient a b = truncated_quotient a b"
proof -
  have fl: "\<lfloor>real_of_int x / real_of_int y\<rfloor> = x div y" for x y :: int
    by (rule floor_divide_of_int_eq)
  have ce: "\<lceil>real_of_int x / real_of_int y\<rceil> = - ((- x) div y)" for x y :: int
  proof -
    have "\<lceil>real_of_int x / real_of_int y\<rceil> = - \<lfloor>real_of_int (- x) / real_of_int y\<rfloor>"
      by (simp add: ceiling_def)
    then show ?thesis by (simp only: fl)
  qed
  consider "a = 0" | "0 < a" "0 < b" | "0 < a" "b < 0" | "a < 0" "0 < b" | "a < 0" "b < 0"
    using assms by linarith
  then show ?thesis
  proof cases
    case 1
    then show ?thesis by (simp add: int_quotient_def truncated_quotient_def)
  next
    case 2
    then have "0 \<le> real_of_int a / real_of_int b" by simp
    with 2 show ?thesis
      by (simp add: int_quotient_def truncated_quotient_def Let_def fl del: floor_divide_of_int_eq)
  next
    case 3
    then have "\<not> 0 \<le> real_of_int a / real_of_int b"
      by (simp add: divide_less_0_iff not_le)
    with 3 show ?thesis
      by (simp add: int_quotient_def truncated_quotient_def Let_def ce div_minus_right)
  next
    case 4
    then have "\<not> 0 \<le> real_of_int a / real_of_int b"
      by (simp add: divide_less_0_iff not_le)
    with 4 show ?thesis
      by (simp add: int_quotient_def truncated_quotient_def Let_def ce)
  next
    case 5
    then have "0 \<le> real_of_int a / real_of_int b"
      by (simp add: zero_le_divide_iff)
    with 5 show ?thesis
      by (simp add: int_quotient_def truncated_quotient_def Let_def fl del: floor_divide_of_int_eq)
  qed
qed

lemma sum_then_simps [simp]:
  "sum_then (Inl e) f = Inl e"
  "sum_then (Inr x) f = f x"
  by (simp_all add: sum_then_def)

lemma sum_then_Inr:
  "sum_then r f = Inr y \<Longrightarrow> \<exists>x. r = Inr x \<and> f x = Inr y"
  by (cases r) simp_all

lemma run_digits_Cons:
  "run_digits n (d # ds) =
     sum_then (int_result (n * 10)) (\<lambda>a.
     sum_then (int_result (a + (48 + digit_value d))) (\<lambda>b.
     sum_then (int_result (b - 48)) (\<lambda>n'. run_digits n' ds)))"
  by (simp add: char_code_digit_char) (simp add: char_code_def)

lemma run_digits_value: "run_digits n ds = Inr v \<Longrightarrow> v = decimal n ds"
proof (induction ds arbitrary: n)
  case Nil
  then show ?case by simp
next
  case (Cons d ds)
  from Cons.prems obtain m where "run_digits m ds = Inr v" "m = n * 10 + digit_value d"
    by (auto dest!: sum_then_Inr simp: run_digits_Cons int_result_Inr simp del: run_digits.simps)
  with Cons.IH [of m] show ?case by simp
qed

lemma signed_sign_factor: "v * sign_factor negative = signed negative v"
  by (simp add: sign_factor_def signed_def)

lemma run_value:
  fixes f :: factor_tree and t :: term_tree and e :: expression_tree
  shows "run_factor f = Inr v \<Longrightarrow> v = value_factor f \<and> divisors_nonzero_factor f"
    and "run_term t = Inr v \<Longrightarrow> v = value_term t \<and> divisors_nonzero_term t"
    and "run_expression e = Inr v \<Longrightarrow> v = value_expression e \<and> divisors_nonzero e"
proof (induction f and t and e arbitrary: v and v and v)
  case (Number negative d ds)
  then show ?case
    by (auto dest!: sum_then_Inr run_digits_value
        simp: int_result_Inr signed_sign_factor simp del: run_digits.simps)
next
  case (Group negative e)
  then show ?case
    by (auto dest!: sum_then_Inr simp: int_result_Inr signed_sign_factor)
next
  case (Single_Factor f)
  then show ?case by simp
next
  case (Multiply t f)
  then show ?case
    by (auto dest!: sum_then_Inr simp: int_result_Inr)
next
  case (Divide t f)
  then show ?case
    by (auto dest!: sum_then_Inr simp: int_result_Inr int_quotient_truncated split: if_splits)
next
  case (Single_Term t)
  then show ?case by simp
next
  case (Add e t)
  then show ?case
    by (auto dest!: sum_then_Inr simp: int_result_Inr)
next
  case (Subtract e t)
  then show ?case
    by (auto dest!: sum_then_Inr simp: int_result_Inr)
qed

lemma decimal_mono: "0 \<le> n \<Longrightarrow> n \<le> decimal n ds"
proof (induction ds arbitrary: n)
  case Nil
  then show ?case by simp
next
  case (Cons d ds)
  have "0 \<le> digit_value d" by (cases d) simp_all
  with Cons.prems have "0 \<le> n * 10 + digit_value d" "n \<le> n * 10 + digit_value d" by simp_all
  with Cons.IH [of "n * 10 + digit_value d"] show ?case by simp
qed

lemma run_digits_within:
  "0 \<le> n \<Longrightarrow> n \<le> INT_MAX \<Longrightarrow> (ds \<noteq> [] \<Longrightarrow> decimal n ds + 48 \<le> INT_MAX) \<Longrightarrow>
   run_digits n ds = Inr (decimal n ds)"
proof (induction ds arbitrary: n)
  case Nil
  then show ?case by simp
next
  case (Cons d ds)
  let ?m = "n * 10 + digit_value d"
  have d: "0 \<le> digit_value d" by (cases d) simp_all
  with Cons.prems have m: "0 \<le> ?m" by simp
  have "?m \<le> decimal ?m ds" by (rule decimal_mono [OF m])
  with Cons.prems have b: "?m + 48 \<le> INT_MAX" by simp
  have r: "in_int_range (n * 10)" "in_int_range (n * 10 + (48 + digit_value d))" "in_int_range ?m"
    using Cons.prems(1) d b by (simp_all add: in_int_range_def INT_MIN_def INT_MAX_def)
  have "run_digits ?m ds = Inr (decimal ?m ds)"
  proof (rule Cons.IH [OF m])
    show "?m \<le> INT_MAX" using b by simp
    show "decimal ?m ds + 48 \<le> INT_MAX" if "ds \<noteq> []" using Cons.prems(3) by simp
  qed
  with r show ?case
    by (simp add: run_digits_Cons del: run_digits.simps)
qed

lemma within_value:
  fixes f :: factor_tree and t :: term_tree and e :: expression_tree
  shows "within_int_factor f \<Longrightarrow> divisors_nonzero_factor f \<Longrightarrow> run_factor f = Inr (value_factor f)"
    and "within_int_term t \<Longrightarrow> divisors_nonzero_term t \<Longrightarrow> run_term t = Inr (value_term t)"
    and "within_int e \<Longrightarrow> divisors_nonzero e \<Longrightarrow> run_expression e = Inr (value_expression e)"
proof (induction f and t and e)
  case (Number negative d ds)
  let ?v = "decimal 0 (d # ds)"
  from Number have b: "?v + 48 \<le> INT_MAX" by simp
  have z: "(0::int) \<le> INT_MAX" by (simp add: INT_MAX_def)
  have "run_digits 0 (d # ds) = Inr ?v"
    by (rule run_digits_within) (use b z in simp_all)
  moreover have "0 \<le> ?v" by (rule decimal_mono) simp
  with b have "in_int_range (signed negative ?v)"
    by (simp add: in_int_range_def signed_def INT_MIN_def INT_MAX_def)
  ultimately show ?case
    by (simp add: signed_sign_factor del: run_digits.simps decimal.simps)
next
  case (Group negative e)
  then show ?case by (simp add: signed_sign_factor)
next
  case (Single_Factor f)
  then show ?case by simp
next
  case (Multiply t f)
  then show ?case by simp
next
  case (Divide t f)
  then show ?case by (simp add: int_quotient_truncated)
next
  case (Single_Term t)
  then show ?case by simp
next
  case (Add e t)
  then show ?case by simp
next
  case (Subtract e t)
  then show ?case by simp
qed

section \<open>The top-level call on the text of a syntax tree\<close>

lemma right_chars_passes:
  "(\<And>i. j \<le> i \<Longrightarrow> i < bound \<Longrightarrow> i < length s \<and> is_right_char (s ! i)) \<Longrightarrow>
   right_chars s bound j = Inr ()"
proof (induction "bound - j" arbitrary: j)
  case 0
  then show ?case by (subst right_chars.simps) simp
next
  case (Suc n)
  then have "j < bound" by simp
  with Suc.prems [of j] have c: "j < length s" "is_right_char (s ! j)" by simp_all
  have "right_chars s bound (j + 1) = Inr ()"
    using Suc.hyps(2) Suc.prems by (intro Suc.hyps(1)) simp_all
  with c \<open>j < bound\<close> show ?case
    by (subst right_chars.simps) (simp add: char_at_def)
qed

lemma is_right_char_digit_char [simp]: "is_right_char (digit_char d)"
  by (simp add: is_right_char_def)

lemma text_right_chars:
  fixes f :: factor_tree and t :: term_tree and e :: expression_tree
  shows "(\<forall>c\<in>set (text_factor f). is_right_char c) \<and> text_factor f \<noteq> []"
    and "(\<forall>c\<in>set (text_term t). is_right_char c) \<and> text_term t \<noteq> []"
    and "(\<forall>c\<in>set (text_expression e). is_right_char c) \<and> text_expression e \<noteq> []"
  by (induction f and t and e) (auto simp: sign_text_def is_right_char_def)

lemma check_Some_Inr: "check r (\<lambda>v. Some (Inr v)) = Some r"
  by (cases r) simp_all

lemma calculate_text_then:
  assumes r: "\<not> isdigit (first_char rest)" "first_char rest \<noteq> CHR ''*''" "first_char rest \<noteq> CHR ''/''"
      "first_char rest \<noteq> CHR ''+''" "first_char rest \<noteq> CHR ''-''"
    and b: "\<forall>c\<in>set (butlast rest). is_right_char c"
  shows "calculate (text_expression e @ rest) = Some (run_expression e)"
proof -
  let ?s = "text_expression e @ rest"
  have ne: "?s \<noteq> []" using text_right_chars(3) [of e] by simp
  have bl: "\<forall>c\<in>set (butlast ?s). is_right_char c"
    using text_right_chars(3) [of e] b by (auto simp: butlast_append dest: in_set_butlastD)
  have "right_chars ?s (strlen_minus_one ?s) 0 = Inr ()"
  proof (rule right_chars_passes)
    fix i assume "i < strlen_minus_one ?s"
    with ne have i: "i < length ?s - 1" by (auto simp: strlen_minus_one_def split: if_splits)
    then have "?s ! i = butlast ?s ! i" by (simp add: nth_butlast)
    moreover from i have "butlast ?s ! i \<in> set (butlast ?s)" by simp
    ultimately show "i < length ?s \<and> is_right_char (?s ! i)" using bl i by auto
  qed
  moreover have "evaluate_expression ?s 0 =
      check (run_expression e) (\<lambda>v. Some (Inr (v, length (text_expression e))))"
  proof -
    have c: "char_at ?s (length (text_expression e)) = Inr (first_char rest)"
      using char_at_append [of "text_expression e" rest] .
    have "expression_loop ?s v (length (text_expression e)) =
        Some (Inr (v, length (text_expression e)))" for v
      by (rule expression_loop_stop [OF c r(4) r(5)])
    with parse_text(3) [of rest "[]" e, OF r(1) r(2) r(3)] show ?thesis by simp
  qed
  ultimately show ?thesis
    by (simp add: calculate_def and_then_check check_Some_Inr)
qed

lemma calculate_text: "calculate (text_expression e) = Some (run_expression e)"
  using calculate_text_then [of "[]" e] by (simp add: first_char_def)

lemma run_digits_stops:
  "run_digits n ds = Inl x \<Longrightarrow> x = Signed_Overflow"
  by (induction ds arbitrary: n)
    (auto simp: sum_then_def int_result_def split: sum.splits if_splits)

lemma run_stops:
  fixes f :: factor_tree and t :: term_tree and e :: expression_tree
  shows "run_factor f = Inl x \<Longrightarrow> x = Division_By_Zero \<or> x = Signed_Overflow"
    and "run_term t = Inl x \<Longrightarrow> x = Division_By_Zero \<or> x = Signed_Overflow"
    and "run_expression e = Inl x \<Longrightarrow> x = Division_By_Zero \<or> x = Signed_Overflow"
  by (induction f and t and e arbitrary: x and x and x)
    (auto simp: sum_then_def int_result_def simp del: run_digits.simps
      dest: run_digits_stops split: sum.splits if_splits)

section \<open>Claims about whole expressions\<close>

text \<open>
  Claim C1, as stated, fails where the arithmetic leaves the range of \<^verbatim>\<open>int\<close>. The text
  \<^verbatim>\<open>100000*100000\<close> is well formed, has no division, and its value in standard
  arithmetic is 10000000000; the multiplication of the code overflows. The same holds
  for the literal \<^verbatim>\<open>2147483648\<close>.
\<close>
theorem standard_value_counterexample:
  "text_expression (Single_Term (Multiply
      (Single_Factor (Number False D1 [D0, D0, D0, D0, D0]))
      (Number False D1 [D0, D0, D0, D0, D0]))) = ''100000*100000'' \<and>
   divisors_nonzero (Single_Term (Multiply
      (Single_Factor (Number False D1 [D0, D0, D0, D0, D0]))
      (Number False D1 [D0, D0, D0, D0, D0]))) \<and>
   value_expression (Single_Term (Multiply
      (Single_Factor (Number False D1 [D0, D0, D0, D0, D0]))
      (Number False D1 [D0, D0, D0, D0, D0]))) = 10000000000 \<and>
   calculate ''100000*100000'' = Some (Inl Signed_Overflow) \<and>
   calculate ''2147483648'' = Some (Inl Signed_Overflow)"
proof -
  have "calculate ''100000*100000'' = Some (Inl Signed_Overflow)" by code_simp
  moreover have "calculate ''2147483648'' = Some (Inl Signed_Overflow)" by code_simp
  ultimately show ?thesis by (simp add: sign_text_def signed_def)
qed

text \<open>
  Claim C1, amended. For every well-formed expression (a syntax tree of the grammar) in
  which no division has a right operand of value 0 and no number that the code computes
  leaves the range of \<^verbatim>\<open>int\<close>, the call on the text of the expression ends and returns
  the value of the expression in standard arithmetic, with \<^verbatim>\<open>*\<close> and \<^verbatim>\<open>/\<close> binding
  tighter than \<^verbatim>\<open>+\<close> and \<^verbatim>\<open>-\<close> and all four associating to the left. A factor of
  the grammar has at most one minus before its digits or its parenthesis (for two, see
  \<^verbatim>\<open>--3\<close> above). The five cases of the specification follow.
\<close>
theorem standard_value:
  "(divisors_nonzero e \<longrightarrow> within_int e \<longrightarrow>
      calculate (text_expression e) = Some (Inr (value_expression e))) \<and>
   calculate ''2/2'' = Some (Inr 1) \<and>
   calculate ''4*4-3*2'' = Some (Inr 10) \<and>
   calculate ''0*4-3*2+1'' = Some (Inr (- 5)) \<and>
   calculate ''(1+3*(-4))/2'' = Some (Inr (- 5)) \<and>
   calculate ''1+2/(1*3)-2'' = Some (Inr (- 1))"
proof (intro conjI impI)
  assume "divisors_nonzero e" "within_int e"
  then show "calculate (text_expression e) = Some (Inr (value_expression e))"
    by (simp add: calculate_text within_value(3))
next
  show "calculate ''2/2'' = Some (Inr 1)" by code_simp
  show "calculate ''4*4-3*2'' = Some (Inr 10)" by code_simp
  show "calculate ''0*4-3*2+1'' = Some (Inr (- 5))" by code_simp
  show "calculate ''(1+3*(-4))/2'' = Some (Inr (- 5))" by code_simp
  show "calculate ''1+2/(1*3)-2'' = Some (Inr (- 1))" by code_simp
qed

text \<open>The tree of \<^verbatim>\<open>(1+3*(-4))/2\<close>.\<close>

theorem standard_value_witness:
  "divisors_nonzero (Single_Term (Divide
     (Single_Factor (Group False (Add (Single_Term (Single_Factor (Number False D1 [])))
        (Multiply (Single_Factor (Number False D3 []))
           (Group False (Single_Term (Single_Factor (Number True D4 []))))))))
     (Number False D2 []))) \<and>
   within_int (Single_Term (Divide
     (Single_Factor (Group False (Add (Single_Term (Single_Factor (Number False D1 [])))
        (Multiply (Single_Factor (Number False D3 []))
           (Group False (Single_Term (Single_Factor (Number True D4 []))))))))
     (Number False D2 []))) \<and>
   text_expression (Single_Term (Divide
     (Single_Factor (Group False (Add (Single_Term (Single_Factor (Number False D1 [])))
        (Multiply (Single_Factor (Number False D3 []))
           (Group False (Single_Term (Single_Factor (Number True D4 []))))))))
     (Number False D2 []))) = ''(1+3*(-4))/2'' \<and>
   value_expression (Single_Term (Divide
     (Single_Factor (Group False (Add (Single_Term (Single_Factor (Number False D1 [])))
        (Multiply (Single_Factor (Number False D3 []))
           (Group False (Single_Term (Single_Factor (Number True D4 []))))))))
     (Number False D2 []))) = - 5 \<and>
   calculate ''(1+3*(-4))/2'' = Some (Inr (- 5))"
proof -
  let ?e = "Single_Term (Divide
     (Single_Factor (Group False (Add (Single_Term (Single_Factor (Number False D1 [])))
        (Multiply (Single_Factor (Number False D3 []))
           (Group False (Single_Term (Single_Factor (Number True D4 []))))))))
     (Number False D2 []))"
  have t: "text_expression ?e = ''(1+3*(-4))/2''" by (simp add: sign_text_def)
  have v: "value_expression ?e = - 5" by (simp add: signed_def truncated_quotient_def)
  have d: "divisors_nonzero ?e" by (simp add: signed_def)
  have w: "within_int ?e"
    by (simp add: signed_def truncated_quotient_def in_int_range_def INT_MIN_def INT_MAX_def)
  from standard_value [of ?e] d w
  have "calculate (text_expression ?e) = Some (Inr (value_expression ?e))"
    by blast
  then have c: "calculate ''(1+3*(-4))/2'' = Some (Inr (- 5))"
    unfolding t v .
  show ?thesis by (intro conjI d w t v c)
qed

text \<open>
  Claim C5, as stated, fails for the one quotient that is no \<^verbatim>\<open>int\<close>: in
  \<^verbatim>\<open>(0-2147483599-49)/-1\<close> the term loop divides the factor -2147483648 by the factor
  -1; the quotient truncated toward zero is 2147483648, and the division of the code
  overflows.
\<close>
theorem truncated_division_counterexample:
  "get_natural ''(0-2147483599-49)/-1'' 0 = Some (Inr (- 2147483648, 17)) \<and>
   char_at ''(0-2147483599-49)/-1'' 17 = Inr CHR ''/'' \<and>
   get_natural ''(0-2147483599-49)/-1'' 18 = Some (Inr (- 1, 20)) \<and>
   truncated_quotient (- 2147483648) (- 1) = 2147483648 \<and>
   calculate ''(0-2147483599-49)/-1'' = Some (Inl Signed_Overflow)"
proof -
  have "get_natural ''(0-2147483599-49)/-1'' 0 = Some (Inr (- 2147483648, 17))" by code_simp
  moreover have "char_at ''(0-2147483599-49)/-1'' 17 = Inr CHR ''/''" by code_simp
  moreover have "get_natural ''(0-2147483599-49)/-1'' 18 = Some (Inr (- 1, 20))" by code_simp
  moreover have "truncated_quotient (- 2147483648) (- 1) = 2147483648"
    by (simp add: truncated_quotient_def)
  moreover have "calculate ''(0-2147483599-49)/-1'' = Some (Inl Signed_Overflow)" by code_simp
  ultimately show ?thesis by (intro conjI)
qed

text \<open>
  Claim C5, amended. Where the term loop combines its running result \<open>a\<close> with a factor
  \<open>b\<close> by \<^verbatim>\<open>/\<close>, \<open>b\<close> is not 0 and the quotient truncated toward zero lies in the range of
  \<^verbatim>\<open>int\<close> (for operands in that range: the pair is not \<^verbatim>\<open>INT_MIN\<close>, -1), the loop goes
  on with that quotient: the real quotient with its fractional part discarded. So
  \<^verbatim>\<open>7/2\<close> is 3 and \<^verbatim>\<open>-7/2\<close> is -3.
\<close>
theorem truncated_division:
  "(char_at s p = Inr CHR ''/'' \<longrightarrow> get_natural s (p + 1) = Some (Inr (b, p')) \<longrightarrow> b \<noteq> 0 \<longrightarrow>
      in_int_range (truncated_quotient a b) \<longrightarrow>
      term_loop s a p = term_loop s (truncated_quotient a b) p') \<and>
   calculate ''7/2'' = Some (Inr 3) \<and>
   calculate ''-7/2'' = Some (Inr (- 3))"
proof (intro conjI impI)
  assume "char_at s p = Inr CHR ''/''" "get_natural s (p + 1) = Some (Inr (b, p'))" "b \<noteq> 0"
    "in_int_range (truncated_quotient a b)"
  then show "term_loop s a p = term_loop s (truncated_quotient a b) p'"
    by (simp add: term_loop_divide int_quotient_truncated)
next
  show "calculate ''7/2'' = Some (Inr 3)" by code_simp
  show "calculate ''-7/2'' = Some (Inr (- 3))" by code_simp
qed

theorem truncated_division_witness:
  "char_at ''-7/2'' 2 = Inr CHR ''/'' \<and> get_natural ''-7/2'' (2 + 1) = Some (Inr (2, 4)) \<and>
   (2::int) \<noteq> 0 \<and> truncated_quotient (- 7) 2 = - 3 \<and> in_int_range (truncated_quotient (- 7) 2) \<and>
   term_loop ''-7/2'' (- 7) 2 = term_loop ''-7/2'' (truncated_quotient (- 7) 2) 4 \<and>
   term_loop ''-7/2'' (- 3) 4 = Some (Inr (- 3, 4))"
proof -
  have c: "char_at ''-7/2'' 2 = Inr CHR ''/''" by code_simp
  have g: "get_natural ''-7/2'' (2 + 1) = Some (Inr (2, 4))" by code_simp
  have n: "(2::int) \<noteq> 0" by simp
  have q: "truncated_quotient (- 7) 2 = - 3" by (simp add: truncated_quotient_def)
  have r: "in_int_range (truncated_quotient (- 7) 2)"
    unfolding q by (simp add: in_int_range_def INT_MIN_def INT_MAX_def)
  have e: "term_loop ''-7/2'' (- 3) 4 = Some (Inr (- 3, 4))" by code_simp
  from truncated_division [of "''-7/2''" 2 2 4 "- 7"] c g n r
  have l: "term_loop ''-7/2'' (- 7) 2 = term_loop ''-7/2'' (truncated_quotient (- 7) 2) 4"
    by blast
  show ?thesis by (intro conjI c g n q r l e)
qed


text \<open>
  Claim C9. Where the text of a well-formed expression is followed by a parenthesis that
  belongs to nothing (the closing one of the claim, or an opening one) and then by any
  allowed characters, the top-level parser stops at that parenthesis and the call returns
  what it returns on the expression alone; what follows is not looked at, and no error
  is reported. So \<^verbatim>\<open>1+2)\<close> followed by any allowed characters yields 3.
\<close>
theorem rest_after_expression_ignored:
  "((\<forall>c\<in>set rest. is_right_char c) \<longrightarrow> stopper = CHR '')'' \<or> stopper = CHR ''('' \<longrightarrow>
      calculate (text_expression e @ stopper # rest) = calculate (text_expression e)) \<and>
   ((\<forall>c\<in>set rest. is_right_char c) \<longrightarrow> calculate (''1+2)'' @ rest) = Some (Inr 3))"
proof -
  have general: "calculate (text_expression e @ stopper # rest) = calculate (text_expression e)"
    if r: "\<forall>c\<in>set rest. is_right_char c" and s: "stopper = CHR '')'' \<or> stopper = CHR ''(''"
    for e stopper
  proof -
    from s have d: "\<not> isdigit stopper" "is_right_char stopper"
      by (auto simp: isdigit_def char_code_def is_right_char_def)
    from r d(2) have b: "\<forall>c\<in>set (butlast (stopper # rest)). is_right_char c"
      by (auto dest: in_set_butlastD split: if_splits)
    have "calculate (text_expression e @ stopper # rest) = Some (run_expression e)"
      by (rule calculate_text_then) (use s d b in auto)
    then show ?thesis by (simp add: calculate_text)
  qed
  let ?e = "Add (Single_Term (Single_Factor (Number False D1 []))) (Single_Factor (Number False D2 []))"
  have t: "text_expression ?e = ''1+2''" by (simp add: sign_text_def)
  have v: "calculate ''1+2'' = Some (Inr 3)" by code_simp
  have "calculate (''1+2)'' @ rest) = Some (Inr 3)" if r: "\<forall>c\<in>set rest. is_right_char c"
    using general [OF r, of "CHR '')''" ?e] unfolding t v by simp
  with general show ?thesis by blast
qed

theorem rest_after_expression_ignored_witness:
  "list_all is_right_char ''*5+(7/0'' \<and>
   text_expression (Single_Term (Multiply (Single_Factor (Number False D2 [])) (Number False D3 [])))
     = ''2*3'' \<and>
   calculate (''2*3'' @ CHR ''('' # ''*5+(7/0'') = calculate ''2*3'' \<and>
   calculate ''2*3'' = Some (Inr 6) \<and>
   calculate (''1+2)'' @ ''*5+(7/0'') = Some (Inr 3)"
proof -
  let ?e = "Single_Term (Multiply (Single_Factor (Number False D2 [])) (Number False D3 []))"
  have r': "list_all is_right_char ''*5+(7/0''" by code_simp
  then have r: "\<forall>c\<in>set ''*5+(7/0'' . is_right_char c" by (simp only: list_all_iff)
  have t: "text_expression ?e = ''2*3''" by (simp add: sign_text_def)
  have v: "calculate ''2*3'' = Some (Inr 6)" by code_simp
  from rest_after_expression_ignored [of "''*5+(7/0''" "CHR ''(''" ?e] r
  have a: "calculate (text_expression ?e @ CHR ''('' # ''*5+(7/0'') = calculate (text_expression ?e)"
    by blast
  then have a': "calculate (''2*3'' @ CHR ''('' # ''*5+(7/0'') = calculate ''2*3''"
    unfolding t .
  from rest_after_expression_ignored [of "''*5+(7/0''" "CHR ''(''" ?e] r
  have b: "calculate (''1+2)'' @ ''*5+(7/0'') = Some (Inr 3)"
    by blast
  show ?thesis by (intro conjI r' t a' v b)
qed

section \<open>The work is linear in the length of the text\<close>

lemma steps_check_simps [simp]:
  "steps_check (Inl e) f = 0"
  "steps_check (Inr x) f = f x"
  by (simp_all add: steps_check_def)

lemma steps_after_simps [simp]:
  "steps_after None f = 0"
  "steps_after (Some (Inl e)) f = 0"
  "steps_after (Some (Inr x)) f = f x"
  by (simp_all add: steps_after_def)

lemma work_bound_stop: "k \<le> B \<Longrightarrow> work_bound L B p k (Some (Inl e))"
  by (simp add: work_bound_def)

lemma work_bound_None: "k \<le> B \<Longrightarrow> work_bound L B p k None"
  by (simp add: work_bound_def)

lemma work_bound_return:
  "p \<le> p' \<Longrightarrow> p' \<le> L + 1 \<Longrightarrow> k + 5 * p \<le> 5 * p' + B \<Longrightarrow>
   work_bound L B p k (Some (Inr (v, p')))"
  by (auto simp: work_bound_def)

lemma work_bound_check:
  "(\<And>x. r = Inr x \<Longrightarrow> work_bound L B p (k x) (m x)) \<Longrightarrow>
   work_bound L B p (steps_check r k) (check r m)"
  by (cases r) (simp_all add: work_bound_stop)

lemma work_bound_if:
  "(b \<Longrightarrow> work_bound L B p k m) \<Longrightarrow> (\<not> b \<Longrightarrow> work_bound L B p k' m') \<Longrightarrow>
   work_bound L B p (if b then k else k') (if b then m else m')"
  by simp

lemma work_bound_earlier:
  "p \<le> q \<Longrightarrow> work_bound L B q k m \<Longrightarrow> work_bound L B p k m"
  by (auto simp: work_bound_def)

lemma work_bound_more:
  "B \<le> B' \<Longrightarrow> work_bound L B p k m \<Longrightarrow> work_bound L B' p k m"
  by (auto simp: work_bound_def)

text \<open>A call that has consumed the character at \<open>p\<close> and goes on at \<open>p + 1\<close>.\<close>

lemma work_bound_advance:
  "p < L \<Longrightarrow> work_bound L B' (p + 1) k m \<Longrightarrow> B' \<le> B + 4 \<Longrightarrow> work_bound L B p (1 + k) m"
  by (auto simp: work_bound_def)

text \<open>Two calls one after the other, as in \<open>evaluate_term\<close> and \<open>evaluate_expression\<close>.\<close>

lemma work_bound_sequence:
  assumes "work_bound L B1 p k1 m1"
    and "\<And>v p1. m1 = Some (Inr (v, p1)) \<Longrightarrow> work_bound L B2 p1 (k2 v p1) (m2 v p1)"
  shows "work_bound L (1 + B1 + B2) p
     (1 + k1 + steps_after m1 (\<lambda>(v, p1). k2 v p1)) (and_then m1 (\<lambda>(v, p1). m2 v p1))"
proof (cases m1)
  case None
  with assms(1) show ?thesis by (auto simp: work_bound_def)
next
  case (Some r)
  show ?thesis
  proof (cases r)
    case (Inl e)
    with Some assms(1) show ?thesis by (auto simp: work_bound_def)
  next
    case (Inr x)
    obtain v p1 where x: "x = (v, p1)" by (cases x)
    from assms(2) [of v p1] Some Inr x have 2: "work_bound L B2 p1 (k2 v p1) (m2 v p1)" by simp
    from assms(1) Some Inr x have 1: "p \<le> p1" "p1 \<le> L + 1" "k1 + 5 * p \<le> 5 * p1 + B1"
      by (simp_all add: work_bound_def)
    from 1 2 show ?thesis
      unfolding Some Inr x by (auto simp: work_bound_def)
  qed
qed

text \<open>
  One round of a loop: the operator at \<open>p\<close> is consumed, a call follows at \<open>p + 1\<close>, and
  the loop goes on where that call has returned.
\<close>

lemma work_bound_round:
  assumes "p < L" and "work_bound L B1 (p + 1) k1 m1" and "B1 \<le> 4"
    and "\<And>v p1. m1 = Some (Inr (v, p1)) \<Longrightarrow> work_bound L B p1 (k2 v p1) (m2 v p1)"
  shows "work_bound L B p
     (1 + (k1 + steps_after m1 (\<lambda>(v, p1). k2 v p1))) (and_then m1 (\<lambda>(v, p1). m2 v p1))"
proof (cases m1)
  case None
  with assms(1,2,3) show ?thesis by (auto simp: work_bound_def)
next
  case (Some r)
  show ?thesis
  proof (cases r)
    case (Inl e)
    with Some assms(1,2,3) show ?thesis by (auto simp: work_bound_def)
  next
    case (Inr x)
    obtain v p1 where x: "x = (v, p1)" by (cases x)
    from assms(4) [of v p1] Some Inr x have 2: "work_bound L B p1 (k2 v p1) (m2 v p1)" by simp
    from assms(2) Some Inr x have 1: "p + 1 \<le> p1" "p1 \<le> L + 1" "k1 + 5 * (p + 1) \<le> 5 * p1 + B1"
      by (simp_all add: work_bound_def)
    from 1 2 assms(3) show ?thesis
      unfolding Some Inr x by (auto simp: work_bound_def)
  qed
qed

lemma work_bound_call: "work_bound L B p k m \<Longrightarrow> B < B' \<Longrightarrow> work_bound L B' p (1 + k) m"
  by (auto simp: work_bound_def)

lemma work_bound_result:
  "work_bound L B p k m \<Longrightarrow>
   work_bound L B p k (and_then m (\<lambda>(v, p2). check (g v) (\<lambda>r. Some (Inr (r, p2)))))"
  by (auto simp: work_bound_def and_then_def check_def split: option.splits sum.splits)

lemma work_bound_result_next:
  "work_bound L B p k m \<Longrightarrow> (\<And>v p2. m = Some (Inr (v, p2)) \<Longrightarrow> p2 \<le> L) \<Longrightarrow>
   work_bound L B p k (and_then m (\<lambda>(v, p2). check (g v) (\<lambda>r. Some (Inr (r, p2 + 1)))))"
  by (fastforce simp: work_bound_def and_then_def check_def split: option.splits sum.splits)

lemma char_at_before_end:
  "char_at s p = Inr c \<Longrightarrow> c \<noteq> CHR 0x00 \<Longrightarrow> p < length s"
  by (auto simp: char_at_def split: if_splits)

lemma char_at_inside: "char_at s p = Inr c \<Longrightarrow> p \<le> length s"
  by (auto simp: char_at_def split: if_splits)

lemma work_bound_checked:
  assumes "\<And>x. work_bound L B p (1 + k x) (m x)" and "1 \<le> B"
  shows "work_bound L B p (1 + steps_check r k) (check r m)"
  using assms by (cases r) (simp_all add: work_bound_stop)

text \<open>The shape of the three loops: one test of the condition, then one of two rounds or the return.\<close>

lemma work_bound_loop:
  assumes "char_at s p = Inr o1 \<Longrightarrow> work_bound (length s) B p (1 + K1) M1"
    and "char_at s p = Inr o2 \<Longrightarrow> work_bound (length s) B p (1 + K2) M2"
    and "1 \<le> B"
  shows "work_bound (length s) B p
     (1 + steps_check (char_at s p) (\<lambda>c. if c = o1 then K1 else if c = o2 then K2 else 0))
     (check (char_at s p) (\<lambda>c. if c = o1 then M1 else if c = o2 then M2 else Some (Inr (r, p))))"
proof (cases "char_at s p")
  case (Inl e)
  with assms(3) show ?thesis by (simp add: work_bound_stop)
next
  case (Inr c)
  then have "p \<le> length s" by (rule char_at_inside)
  with assms Inr show ?thesis by (auto intro!: work_bound_return)
qed

lemma steps_bound:
  "work_bound (length s) 2 p (get_natural_steps n s p) (get_natural_fuel n s p) \<and>
   work_bound (length s) 1 p (digits_steps n s a p) (digits_fuel n s a p) \<and>
   work_bound (length s) 4 p (evaluate_term_steps n s p) (evaluate_term_fuel n s p) \<and>
   work_bound (length s) 1 p (term_loop_steps n s a p) (term_loop_fuel n s a p) \<and>
   work_bound (length s) 6 p (evaluate_expression_steps n s p) (evaluate_expression_fuel n s p) \<and>
   work_bound (length s) 1 p (expression_loop_steps n s a p) (expression_loop_fuel n s a p)"
proof (induction n arbitrary: p a)
  case 0
  show ?case
    by (simp add: work_bound_None get_natural_fuel.simps digits_fuel.simps evaluate_term_fuel.simps
        term_loop_fuel.simps evaluate_expression_fuel.simps expression_loop_fuel.simps
        get_natural_steps.simps digits_steps.simps evaluate_term_steps.simps
        term_loop_steps.simps evaluate_expression_steps.simps expression_loop_steps.simps)
next
  case (Suc n)
  let ?L = "length s"
  have ih:
    "\<And>p. work_bound ?L 2 p (get_natural_steps n s p) (get_natural_fuel n s p)"
    "\<And>a p. work_bound ?L 1 p (digits_steps n s a p) (digits_fuel n s a p)"
    "\<And>p. work_bound ?L 4 p (evaluate_term_steps n s p) (evaluate_term_fuel n s p)"
    "\<And>a p. work_bound ?L 1 p (term_loop_steps n s a p) (term_loop_fuel n s a p)"
    "\<And>p. work_bound ?L 6 p (evaluate_expression_steps n s p) (evaluate_expression_fuel n s p)"
    "\<And>a p. work_bound ?L 1 p (expression_loop_steps n s a p) (expression_loop_fuel n s a p)"
    using Suc.IH by blast+
  have et: "work_bound ?L 4 p (evaluate_term_steps (Suc n) s p) (evaluate_term_fuel (Suc n) s p)" for p
  proof -
    have "work_bound ?L (1 + 2 + 1) p
        (1 + get_natural_steps n s p +
           steps_after (get_natural_fuel n s p) (\<lambda>(v, p1). term_loop_steps n s v p1))
        (and_then (get_natural_fuel n s p) (\<lambda>(v, p1). term_loop_fuel n s v p1))"
      by (rule work_bound_sequence [OF ih(1)]) (rule ih(4))
    from work_bound_more [OF _ this, of 4] show ?thesis
      by (simp add: evaluate_term_steps.simps(2) evaluate_term_fuel.simps(2))
  qed
  have ee: "work_bound ?L 6 p (evaluate_expression_steps (Suc n) s p) (evaluate_expression_fuel (Suc n) s p)" for p
  proof -
    have "work_bound ?L (1 + 4 + 1) p
        (1 + evaluate_term_steps n s p +
           steps_after (evaluate_term_fuel n s p) (\<lambda>(v, p1). expression_loop_steps n s v p1))
        (and_then (evaluate_term_fuel n s p) (\<lambda>(v, p1). expression_loop_fuel n s v p1))"
      by (rule work_bound_sequence [OF ih(3)]) (rule ih(6))
    from work_bound_more [OF _ this, of 6] show ?thesis
      by (simp add: evaluate_expression_steps.simps(2) evaluate_expression_fuel.simps(2))
  qed
  have tl: "work_bound ?L 1 p (term_loop_steps (Suc n) s a p) (term_loop_fuel (Suc n) s a p)" for a p
    unfolding term_loop_steps.simps(2) term_loop_fuel.simps(2)
  proof (rule work_bound_loop)
    assume "char_at s p = Inr CHR ''*''"
    then have "p < ?L" by (rule char_at_before_end) simp
    then show "work_bound ?L 1 p
       (1 + (get_natural_steps n s (p + 1) +
          steps_after (get_natural_fuel n s (p + 1)) (\<lambda>(operand, position1).
            steps_check (int_result (a * operand)) (\<lambda>result'. term_loop_steps n s result' position1))))
       (and_then (get_natural_fuel n s (p + 1)) (\<lambda>(operand, position1).
          check (int_result (a * operand)) (\<lambda>result'. term_loop_fuel n s result' position1)))"
      by (rule work_bound_round [OF _ ih(1)]; (simp; fail)?; intro work_bound_check ih(4))
  next
    assume "char_at s p = Inr CHR ''/''"
    then have "p < ?L" by (rule char_at_before_end) simp
    then show "work_bound ?L 1 p
       (1 + (get_natural_steps n s (p + 1) +
          steps_after (get_natural_fuel n s (p + 1)) (\<lambda>(operand, position1).
            if operand = 0 then 0
            else steps_check (int_result (int_quotient a operand))
              (\<lambda>result'. term_loop_steps n s result' position1))))
       (and_then (get_natural_fuel n s (p + 1)) (\<lambda>(operand, position1).
          if operand = 0 then Some (Inl Division_By_Zero)
          else check (int_result (int_quotient a operand))
            (\<lambda>result'. term_loop_fuel n s result' position1)))"
      by (rule work_bound_round [OF _ ih(1)]; (simp; fail)?;
            intro work_bound_if work_bound_stop work_bound_check ih(4); simp?)
  qed simp
  have el: "work_bound ?L 1 p (expression_loop_steps (Suc n) s a p) (expression_loop_fuel (Suc n) s a p)" for a p
    unfolding expression_loop_steps.simps(2) expression_loop_fuel.simps(2)
  proof (rule work_bound_loop)
    assume "char_at s p = Inr CHR ''+''"
    then have "p < ?L" by (rule char_at_before_end) simp
    then show "work_bound ?L 1 p
       (1 + (evaluate_term_steps n s (p + 1) +
          steps_after (evaluate_term_fuel n s (p + 1)) (\<lambda>(operand, position1).
            steps_check (int_result (a + operand)) (\<lambda>result'. expression_loop_steps n s result' position1))))
       (and_then (evaluate_term_fuel n s (p + 1)) (\<lambda>(operand, position1).
          check (int_result (a + operand)) (\<lambda>result'. expression_loop_fuel n s result' position1)))"
      by (rule work_bound_round [OF _ ih(3)]; (simp; fail)?; intro work_bound_check ih(6))
  next
    assume "char_at s p = Inr CHR ''-''"
    then have "p < ?L" by (rule char_at_before_end) simp
    then show "work_bound ?L 1 p
       (1 + (evaluate_term_steps n s (p + 1) +
          steps_after (evaluate_term_fuel n s (p + 1)) (\<lambda>(operand, position1).
            steps_check (int_result (a - operand)) (\<lambda>result'. expression_loop_steps n s result' position1))))
       (and_then (evaluate_term_fuel n s (p + 1)) (\<lambda>(operand, position1).
          check (int_result (a - operand)) (\<lambda>result'. expression_loop_fuel n s result' position1)))"
      by (rule work_bound_round [OF _ ih(3)]; (simp; fail)?; intro work_bound_check ih(6))
  qed simp
  have dg: "work_bound ?L 1 p (digits_steps (Suc n) s a p) (digits_fuel (Suc n) s a p)" for a p
  proof (cases "char_at s p")
    case (Inl e)
    then show ?thesis
      by (simp add: digits_steps.simps(2) digits_fuel.simps(2) work_bound_stop)
  next
    case (Inr c)
    then have le: "p \<le> ?L" by (rule char_at_inside)
    show ?thesis
    proof (cases "isdigit c")
      case False
      with Inr le show ?thesis
        by (simp add: digits_steps.simps(2) digits_fuel.simps(2) work_bound_return)
    next
      case True
      with Inr have lt: "p < ?L" by (auto intro: char_at_before_end)
      have inner: "work_bound ?L 1 p
          (1 + (if ?L \<le> p + 1 then 0 else digits_steps n s x (p + 1)))
          (if ?L \<le> p + 1 then Some (Inr (x, p + 1)) else digits_fuel n s x (p + 1))" for x
        using lt work_bound_advance [OF lt ih(2) [where a = x and p = "p + 1"], where B = 1]
        by (auto intro!: work_bound_return)
      have k: "digits_steps (Suc n) s a p =
          1 + steps_check (int_result (a * 10)) (\<lambda>a.
              steps_check (int_result (a + char_code c)) (\<lambda>b.
              steps_check (int_result (b - char_code CHR ''0'')) (\<lambda>natural'.
                if ?L \<le> p + 1 then 0 else digits_steps n s natural' (p + 1))))"
        using Inr True by (simp add: digits_steps.simps(2))
      have m: "digits_fuel (Suc n) s a p =
          check (int_result (a * 10)) (\<lambda>a.
            check (int_result (a + char_code c)) (\<lambda>b.
            check (int_result (b - char_code CHR ''0'')) (\<lambda>natural'.
              if ?L \<le> p + 1 then Some (Inr (natural', p + 1))
              else digits_fuel n s natural' (p + 1))))"
        using Inr True by (simp add: digits_fuel.simps(2))
      show ?thesis
        unfolding k m by (intro work_bound_checked inner) simp_all
    qed
  qed
  have gn: "work_bound ?L 2 p (get_natural_steps (Suc n) s p) (get_natural_fuel (Suc n) s p)" for p
  proof (cases "char_at s p")
    case (Inl e)
    then show ?thesis
      by (simp add: get_natural_steps.simps(2) get_natural_fuel.simps(2) work_bound_stop)
  next
    case (Inr c0)
    let ?p1 = "if c0 = CHR ''-'' then p + 1 else p"
    have p1: "p \<le> ?p1" by simp
    show ?thesis
    proof (cases "char_at s ?p1")
      case (Inl e)
      with Inr show ?thesis
        by (simp add: get_natural_steps.simps(2) get_natural_fuel.simps(2) work_bound_stop Let_def)
    next
      case c1: (Inr c1)
      have "work_bound ?L 2 ?p1
          (1 + (if c1 = CHR ''('' then evaluate_expression_steps n s (?p1 + 1)
                else digits_steps n s 0 ?p1))
          (if c1 = CHR ''('' then
             and_then (evaluate_expression_fuel n s (?p1 + 1)) (\<lambda>(natural, position2).
               check (int_result (natural * (if c0 = CHR ''-'' then - 1 else 1)))
                 (\<lambda>r. Some (Inr (r, position2 + 1))))
           else
             and_then (digits_fuel n s 0 ?p1) (\<lambda>(natural, position2).
               check (int_result (natural * (if c0 = CHR ''-'' then - 1 else 1)))
                 (\<lambda>r. Some (Inr (r, position2)))))"
      proof (cases "c1 = CHR ''(''")
        case True
        with c1 have lt: "?p1 < ?L" by (auto intro: char_at_before_end)
        have "work_bound ?L 6 (?p1 + 1) (evaluate_expression_steps n s (?p1 + 1))
            (and_then (evaluate_expression_fuel n s (?p1 + 1)) (\<lambda>(natural, position2).
               check (int_result (natural * (if c0 = CHR ''-'' then - 1 else 1)))
                 (\<lambda>r. Some (Inr (r, position2 + 1)))))"
          by (rule work_bound_result_next [OF ih(5)]) (auto dest: returns_evaluate_expression)
        from work_bound_advance [OF lt this, where B = 2] True show ?thesis
          by (simp only: if_True simp_thms)
      next
        case False
        have "work_bound ?L 1 ?p1 (digits_steps n s 0 ?p1)
            (and_then (digits_fuel n s 0 ?p1) (\<lambda>(natural, position2).
               check (int_result (natural * (if c0 = CHR ''-'' then - 1 else 1)))
                 (\<lambda>r. Some (Inr (r, position2)))))"
          by (rule work_bound_result [OF ih(2)])
        from work_bound_call [OF this, where B' = 2] False show ?thesis
          by (simp only: if_False simp_thms)
      qed
      then have "work_bound ?L 2 p
          (1 + (if c1 = CHR ''('' then evaluate_expression_steps n s (?p1 + 1)
                else digits_steps n s 0 ?p1))
          (if c1 = CHR ''('' then
             and_then (evaluate_expression_fuel n s (?p1 + 1)) (\<lambda>(natural, position2).
               check (int_result (natural * (if c0 = CHR ''-'' then - 1 else 1)))
                 (\<lambda>r. Some (Inr (r, position2 + 1))))
           else
             and_then (digits_fuel n s 0 ?p1) (\<lambda>(natural, position2).
               check (int_result (natural * (if c0 = CHR ''-'' then - 1 else 1)))
                 (\<lambda>r. Some (Inr (r, position2)))))"
        by (rule work_bound_earlier [OF p1])
      then show ?thesis
        unfolding get_natural_steps.simps(2) get_natural_fuel.simps(2) Inr
          steps_check_simps check_simps Let_def c1 .
    qed
  qed
  show ?case by (intro conjI gn dg et tl ee el)
qed

lemma below_finishes: "below a b \<Longrightarrow> finishes a \<Longrightarrow> b = a"
  by (auto simp: below_def finishes_def)

lemmas fuel_Suc_get_natural = fuel_Suc_below [THEN conjunct1, THEN below_finishes]
lemmas fuel_Suc_digits = fuel_Suc_below [THEN conjunct2, THEN conjunct1, THEN below_finishes]
lemmas fuel_Suc_evaluate_term = fuel_Suc_below [THEN conjunct2, THEN conjunct2, THEN conjunct1, THEN below_finishes]
lemmas fuel_Suc_term_loop = fuel_Suc_below [THEN conjunct2, THEN conjunct2, THEN conjunct2, THEN conjunct1, THEN below_finishes]
lemmas fuel_Suc_evaluate_expression = fuel_Suc_below [THEN conjunct2, THEN conjunct2, THEN conjunct2, THEN conjunct2, THEN conjunct1, THEN below_finishes]
lemmas fuel_Suc_expression_loop = fuel_Suc_below [THEN conjunct2, THEN conjunct2, THEN conjunct2, THEN conjunct2, THEN conjunct2, THEN below_finishes]

lemma finishes_simps [simp]: "\<not> finishes None" "finishes (Some x)"
  by (simp_all add: finishes_def)

lemma steps_Suc:
  "(finishes (get_natural_fuel n s p) \<longrightarrow> get_natural_steps (Suc n) s p = get_natural_steps n s p) \<and>
   (finishes (digits_fuel n s a p) \<longrightarrow> digits_steps (Suc n) s a p = digits_steps n s a p) \<and>
   (finishes (evaluate_term_fuel n s p) \<longrightarrow> evaluate_term_steps (Suc n) s p = evaluate_term_steps n s p) \<and>
   (finishes (term_loop_fuel n s a p) \<longrightarrow> term_loop_steps (Suc n) s a p = term_loop_steps n s a p) \<and>
   (finishes (evaluate_expression_fuel n s p) \<longrightarrow>
      evaluate_expression_steps (Suc n) s p = evaluate_expression_steps n s p) \<and>
   (finishes (expression_loop_fuel n s a p) \<longrightarrow>
      expression_loop_steps (Suc n) s a p = expression_loop_steps n s a p)"
proof (induction n arbitrary: p a)
  case 0
  show ?case
    by (simp add: get_natural_fuel.simps digits_fuel.simps evaluate_term_fuel.simps
        term_loop_fuel.simps evaluate_expression_fuel.simps expression_loop_fuel.simps)
next
  case (Suc n)
  have ih:
    "\<And>p. finishes (get_natural_fuel n s p) \<Longrightarrow> get_natural_steps (Suc n) s p = get_natural_steps n s p"
    "\<And>a p. finishes (digits_fuel n s a p) \<Longrightarrow> digits_steps (Suc n) s a p = digits_steps n s a p"
    "\<And>p. finishes (evaluate_term_fuel n s p) \<Longrightarrow> evaluate_term_steps (Suc n) s p = evaluate_term_steps n s p"
    "\<And>a p. finishes (term_loop_fuel n s a p) \<Longrightarrow> term_loop_steps (Suc n) s a p = term_loop_steps n s a p"
    "\<And>p. finishes (evaluate_expression_fuel n s p) \<Longrightarrow>
      evaluate_expression_steps (Suc n) s p = evaluate_expression_steps n s p"
    "\<And>a p. finishes (expression_loop_fuel n s a p) \<Longrightarrow>
      expression_loop_steps (Suc n) s a p = expression_loop_steps n s a p"
    using Suc.IH by blast+
  note same = fuel_Suc_get_natural fuel_Suc_digits fuel_Suc_evaluate_term fuel_Suc_term_loop
    fuel_Suc_evaluate_expression fuel_Suc_expression_loop
  have gn: "get_natural_steps (Suc (Suc n)) s p = get_natural_steps (Suc n) s p"
    if "finishes (get_natural_fuel (Suc n) s p)" for p
    using that
    apply (subst (asm) get_natural_fuel.simps(2))
    apply (subst get_natural_steps.simps(2) [of n])
    apply (subst get_natural_steps.simps(2) [of "Suc n"])
    apply (auto simp: Let_def check_def and_then_def steps_check_def steps_after_def ih same
        split: sum.splits option.splits if_splits)
    done
  have dg: "digits_steps (Suc (Suc n)) s a p = digits_steps (Suc n) s a p"
    if "finishes (digits_fuel (Suc n) s a p)" for a p
    using that
    apply (subst (asm) digits_fuel.simps(2))
    apply (subst digits_steps.simps(2) [of n])
    apply (subst digits_steps.simps(2) [of "Suc n"])
    apply (auto simp: Let_def check_def and_then_def steps_check_def steps_after_def ih same
        split: sum.splits option.splits if_splits)
    done
  have et: "evaluate_term_steps (Suc (Suc n)) s p = evaluate_term_steps (Suc n) s p"
    if "finishes (evaluate_term_fuel (Suc n) s p)" for p
    using that
    apply (subst (asm) evaluate_term_fuel.simps(2))
    apply (subst evaluate_term_steps.simps(2) [of n])
    apply (subst evaluate_term_steps.simps(2) [of "Suc n"])
    apply (auto simp: Let_def check_def and_then_def steps_check_def steps_after_def ih same
        split: sum.splits option.splits if_splits)
    done
  have tl: "term_loop_steps (Suc (Suc n)) s a p = term_loop_steps (Suc n) s a p"
    if "finishes (term_loop_fuel (Suc n) s a p)" for a p
    using that
    apply (subst (asm) term_loop_fuel.simps(2))
    apply (subst term_loop_steps.simps(2) [of n])
    apply (subst term_loop_steps.simps(2) [of "Suc n"])
    apply (auto simp: Let_def check_def and_then_def steps_check_def steps_after_def ih same
        split: sum.splits option.splits if_splits)
    done
  have ee: "evaluate_expression_steps (Suc (Suc n)) s p = evaluate_expression_steps (Suc n) s p"
    if "finishes (evaluate_expression_fuel (Suc n) s p)" for p
    using that
    apply (subst (asm) evaluate_expression_fuel.simps(2))
    apply (subst evaluate_expression_steps.simps(2) [of n])
    apply (subst evaluate_expression_steps.simps(2) [of "Suc n"])
    apply (auto simp: Let_def check_def and_then_def steps_check_def steps_after_def ih same
        split: sum.splits option.splits if_splits)
    done
  have el: "expression_loop_steps (Suc (Suc n)) s a p = expression_loop_steps (Suc n) s a p"
    if "finishes (expression_loop_fuel (Suc n) s a p)" for a p
    using that
    apply (subst (asm) expression_loop_fuel.simps(2))
    apply (subst expression_loop_steps.simps(2) [of n])
    apply (subst expression_loop_steps.simps(2) [of "Suc n"])
    apply (auto simp: Let_def check_def and_then_def steps_check_def steps_after_def ih same
        split: sum.splits option.splits if_splits)
    done
  show ?case
    by (intro conjI gn [THEN impI] dg [THEN impI] et [THEN impI] tl [THEN impI]
        ee [THEN impI] el [THEN impI])
qed

lemma steps_stable:
  assumes "fuel s \<le> n"
  shows "get_natural_steps n s p = get_natural_steps (fuel s) s p"
    and "evaluate_term_steps n s p = evaluate_term_steps (fuel s) s p"
    and "evaluate_expression_steps n s p = evaluate_expression_steps (fuel s) s p"
proof -
  have f: "finishes (get_natural_fuel m s p)" "finishes (evaluate_term_fuel m s p)"
    "finishes (evaluate_expression_fuel m s p)" if "fuel s \<le> m" for m
    using that
    by (simp_all add: fuel_stable get_natural_finishes evaluate_term_finishes
        evaluate_expression_finishes)
  from assms show "get_natural_steps n s p = get_natural_steps (fuel s) s p"
    by (induction n rule: dec_induct) (simp_all add: steps_Suc f)
  from assms show "evaluate_term_steps n s p = evaluate_term_steps (fuel s) s p"
    by (induction n rule: dec_induct) (simp_all add: steps_Suc f)
  from assms show "evaluate_expression_steps n s p = evaluate_expression_steps (fuel s) s p"
    by (induction n rule: dec_induct) (simp_all add: steps_Suc f)
qed

text \<open>
  Claim C8, as stated, fails at the text \<^verbatim>\<open>(1\<close> of claim C7: the factor parser returns
  with the cursor behind the terminating NUL, the term parser reads there, and from this
  read on C defines no behaviour, so that neither the term parser nor the expression
  parser returns in the model, and nothing bounds the work of the program after the
  read. On \<^verbatim>\<open>100000*100000\<close> the term parser meets a signed overflow.
\<close>
theorem parsers_do_not_return:
  "get_natural ''(1'' 0 = Some (Inr (1, 3)) \<and>
   evaluate_term ''(1'' 0 = Some (Inl Read_Past_End) \<and>
   evaluate_expression ''(1'' 0 = Some (Inl Read_Past_End) \<and>
   evaluate_term ''100000*100000'' 0 = Some (Inl Signed_Overflow) \<and>
   evaluate_expression ''100000*100000'' 0 = Some (Inl Signed_Overflow)"
  by code_simp

text \<open>
  Claim C8, amended. For every text, well-formed or not, and from every cursor position,
  the run of the expression, term and factor parsers comes to an end: the call returns,
  or the process exits at a division by zero, or the run meets an operation that C
  leaves undefined (a signed overflow, or the read behind the terminating NUL of claim
  C7), and nothing is said of the program after that operation. Up to this end the work
  is bounded by the length of the text: counting one step for every call of one of the
  three parsers and one for every test of a loop condition, a call of the expression
  parser makes at most \<open>5 * (length s + 1 - p) + 6\<close> steps (4 for the term parser and 2
  for the factor parser in place of the 6), whatever the budget \<open>n\<close> of the model. A
  budget of \<open>3 * length s + 6\<close> nested calls is enough, and a larger budget changes
  neither the outcome nor the number of steps. (The test of the digit loop also calls
  \<^verbatim>\<open>strlen\<close>; the characters that \<^verbatim>\<open>strlen\<close> itself scans are not counted.)
\<close>
theorem evaluation_ends_in_linear_work:
  "finishes (calculate s) \<and>
   finishes (evaluate_expression s p) \<and> finishes (evaluate_term s p) \<and> finishes (get_natural s p) \<and>
   evaluate_expression_fuel (3 * length s + 6 + k) s p = evaluate_expression s p \<and>
   evaluate_term_fuel (3 * length s + 6 + k) s p = evaluate_term s p \<and>
   get_natural_fuel (3 * length s + 6 + k) s p = get_natural s p \<and>
   evaluate_expression_steps (3 * length s + 6 + k) s p =
     evaluate_expression_steps (3 * length s + 6) s p \<and>
   evaluate_term_steps (3 * length s + 6 + k) s p = evaluate_term_steps (3 * length s + 6) s p \<and>
   get_natural_steps (3 * length s + 6 + k) s p = get_natural_steps (3 * length s + 6) s p \<and>
   evaluate_expression_steps n s p \<le> 5 * (length s + 1 - p) + 6 \<and>
   evaluate_term_steps n s p \<le> 5 * (length s + 1 - p) + 4 \<and>
   get_natural_steps n s p \<le> 5 * (length s + 1 - p) + 2"
proof -
  have b: "fuel s \<le> 3 * length s + 6 + k" and e: "3 * length s + 6 = fuel s"
    by (simp_all add: fuel_def)
  have "evaluate_expression_steps n s p \<le> 5 * (length s + 1 - p) + 6"
    "evaluate_term_steps n s p \<le> 5 * (length s + 1 - p) + 4"
    "get_natural_steps n s p \<le> 5 * (length s + 1 - p) + 2"
    using steps_bound [of s p n] by (simp_all add: work_bound_def)
  moreover have "evaluate_expression_steps (3 * length s + 6 + k) s p =
      evaluate_expression_steps (3 * length s + 6) s p"
    "evaluate_term_steps (3 * length s + 6 + k) s p = evaluate_term_steps (3 * length s + 6) s p"
    "get_natural_steps (3 * length s + 6 + k) s p = get_natural_steps (3 * length s + 6) s p"
    unfolding e using steps_stable [of s "fuel s + k" p] by simp_all
  ultimately show ?thesis
    using b
    by (simp add: fuel_stable calculate_finishes evaluate_expression_finishes
        evaluate_term_finishes get_natural_finishes)
qed

theorem evaluation_ends_in_linear_work_witness:
  "finishes (calculate ''1++++++++++'') \<and>
   evaluate_expression_fuel 39 ''1++++++++++'' 0 = evaluate_expression ''1++++++++++'' 0 \<and>
   evaluate_expression ''1++++++++++'' 0 = Some (Inr (1, 11)) \<and>
   evaluate_expression_steps 39 ''1++++++++++'' 0 = 57 \<and>
   evaluate_expression_steps 39 ''1++++++++++'' 0 \<le> 5 * (length ''1++++++++++'' + 1 - 0) + 6 \<and>
   5 * (length ''1++++++++++'' + 1 - 0) + 6 = (66::nat)"
proof -
  have v: "evaluate_expression ''1++++++++++'' 0 = Some (Inr (1, 11))" by code_simp
  have c: "evaluate_expression_steps 39 ''1++++++++++'' 0 = 57" by code_simp
  from evaluation_ends_in_linear_work [of "''1++++++++++''" 0 0 39]
  have "finishes (calculate ''1++++++++++'')"
    "evaluate_expression_fuel 39 ''1++++++++++'' 0 = evaluate_expression ''1++++++++++'' 0"
    "evaluate_expression_steps 39 ''1++++++++++'' 0 \<le> 5 * (length ''1++++++++++'' + 1 - 0) + 6"
    by simp_all
  with v c show ?thesis by simp
qed

section \<open>A division by zero ends the whole evaluation\<close>

lemma reached_stop:
  "reached s c \<Longrightarrow> call_outcome s c = Some (Inl e) \<Longrightarrow> evaluate_expression s 0 = Some (Inl e)"
proof (induction rule: reached.induct)
  case top_level
  then show ?case by simp
next
  case (expression_term position)
  then show ?case by (simp add: evaluate_expression_unfold [of s position])
next
  case (expression_loop position result position1)
  then show ?case by (simp add: evaluate_expression_unfold [of s position])
next
  case (term_factor position)
  then show ?case by (simp add: evaluate_term_unfold [of s position])
next
  case (term_loop position result position1)
  then show ?case by (simp add: evaluate_term_unfold [of s position])
next
  case (times_factor result position)
  then show ?case by (simp add: term_loop_times)
next
  case (times_loop result position operand position1 result')
  then show ?case by (simp add: term_loop_times)
next
  case (divide_factor result position)
  then show ?case by (simp add: term_loop_divide)
next
  case (divide_loop result position operand position1 result')
  then show ?case by (simp add: term_loop_divide)
next
  case (plus_term result position)
  then show ?case by (simp add: expression_loop_plus)
next
  case (plus_loop result position operand position1 result')
  then show ?case by (simp add: expression_loop_plus)
next
  case (minus_term result position)
  then show ?case by (simp add: expression_loop_minus)
next
  case (minus_loop result position operand position1 result')
  then show ?case by (simp add: expression_loop_minus)
next
  case (group position)
  then show ?case by (simp add: get_natural_unfold [of s position])
next
  case (negative_group position)
  then show ?case by (simp add: get_natural_unfold [of s position])
qed

lemma right_chars_stop:
  "right_chars s bound i = Inl e \<Longrightarrow> i \<le> length s \<Longrightarrow> e = Wrong_Character"
proof (induction s bound i rule: right_chars.induct)
  case (1 expression bound i)
  show ?case
  proof (cases "i < bound \<and> i < length expression \<and> is_right_char (expression ! i)")
    case True
    with "1.prems" have "right_chars expression bound (i + 1) = Inl e"
      by (subst (asm) right_chars.simps) (simp add: char_at_def)
    with True "1.IH" [of "expression ! i"] show ?thesis
      by (simp add: char_at_def)
  next
    case False
    with "1.prems" show ?thesis
      by (subst (asm) right_chars.simps)
        (auto simp: char_at_def is_right_char_def split: if_splits)
  qed
qed

lemma calculate_stop:
  assumes "evaluate_expression s 0 = Some (Inl e)"
  shows "calculate s = Some (Inl e) \<or> calculate s = Some (Inl Wrong_Character)"
proof (cases "right_chars s (strlen_minus_one s) 0")
  case (Inl x)
  then have "x = Wrong_Character" by (rule right_chars_stop) simp
  with Inl show ?thesis by (simp add: calculate_def)
next
  case (Inr u)
  with assms show ?thesis by (simp add: calculate_def)
qed

lemma zero_divisor_first_run:
  fixes f :: factor_tree and t :: term_tree and e :: expression_tree
  shows "zero_divisor_first_factor f \<Longrightarrow> run_factor f = Inl Division_By_Zero"
    and "zero_divisor_first_term t \<Longrightarrow> run_term t = Inl Division_By_Zero"
    and "zero_divisor_first e \<Longrightarrow> run_expression e = Inl Division_By_Zero"
  by (induction f and t and e) (auto simp: within_value)

text \<open>
  Claim C3, as stated, fails where an overflow comes before the division. In the
  well-formed text \<^verbatim>\<open>1/((100000*100000)/100000-100000)\<close> the right operand of the first
  division has the value 0 in standard arithmetic, but the code never divides by it: the
  product \<^verbatim>\<open>100000*100000\<close> overflows first, and from there on C defines no behaviour
  (with wrap-around the operand would come out as -85900 and the call would return 0).
\<close>
theorem zero_divisor_after_overflow:
  "text_expression
     (Single_Term (Divide (Single_Factor (Number False D1 []))
      (Group False (Subtract
        (Single_Term (Divide
          (Single_Factor (Group False (Single_Term (Multiply (Single_Factor (Number False D1 [D0, D0, D0, D0, D0])) (Number False D1 [D0, D0, D0, D0, D0])))))
          (Number False D1 [D0, D0, D0, D0, D0])))
        (Single_Factor (Number False D1 [D0, D0, D0, D0, D0])))))) = ''1/((100000*100000)/100000-100000)'' \<and>
   value_factor
     (Group False (Subtract
        (Single_Term (Divide
          (Single_Factor (Group False (Single_Term (Multiply (Single_Factor (Number False D1 [D0, D0, D0, D0, D0])) (Number False D1 [D0, D0, D0, D0, D0])))))
          (Number False D1 [D0, D0, D0, D0, D0])))
        (Single_Factor (Number False D1 [D0, D0, D0, D0, D0])))) = 0 \<and>
   \<not> divisors_nonzero
     (Single_Term (Divide (Single_Factor (Number False D1 []))
      (Group False (Subtract
        (Single_Term (Divide
          (Single_Factor (Group False (Single_Term (Multiply (Single_Factor (Number False D1 [D0, D0, D0, D0, D0])) (Number False D1 [D0, D0, D0, D0, D0])))))
          (Number False D1 [D0, D0, D0, D0, D0])))
        (Single_Factor (Number False D1 [D0, D0, D0, D0, D0])))))) \<and>
   calculate ''1/((100000*100000)/100000-100000)'' = Some (Inl Signed_Overflow)"
proof -
  have "calculate ''1/((100000*100000)/100000-100000)'' = Some (Inl Signed_Overflow)"
    by code_simp
  then show ?thesis
    by (simp add: sign_text_def signed_def truncated_quotient_def)
qed

text \<open>
  Claim C3, amended. Where some \<^verbatim>\<open>/\<close> has a right operand that evaluates to exactly 0 and
  no number that the code computes before it reaches that division leaves the range of
  \<^verbatim>\<open>int\<close>, the evaluation stops at that division with the exit and returns no value,
  wherever in the expression the division is. For a well-formed expression: if, in the
  order of evaluation, a zero divisor is met before anything leaves the range of
  \<^verbatim>\<open>int\<close>, the call ends with the division-by-zero exit. For any text, well-formed or
  not: if the evaluation reaches a term loop that stands at a \<^verbatim>\<open>/\<close> and the factor
  parser returns 0 for the operand, then the top-level parser ends with the
  division-by-zero exit, whatever calls lie between, and the call either ends with that
  exit or has refused the text for a wrong character before the evaluation began. So
  \<^verbatim>\<open>1/0\<close> and \<^verbatim>\<open>(1+1)/(1-1)\<close> end with the exit.
\<close>
theorem division_by_zero_stops:
  "(zero_divisor_first e \<longrightarrow> calculate (text_expression e) = Some (Inl Division_By_Zero)) \<and>
   (reached s (Term_Loop r p) \<longrightarrow> char_at s p = Inr CHR ''/'' \<longrightarrow>
      get_natural s (p + 1) = Some (Inr (0, p')) \<longrightarrow>
      term_loop s r p = Some (Inl Division_By_Zero) \<and>
      evaluate_expression s 0 = Some (Inl Division_By_Zero) \<and>
      (calculate s = Some (Inl Division_By_Zero) \<or> calculate s = Some (Inl Wrong_Character))) \<and>
   calculate ''1/0'' = Some (Inl Division_By_Zero) \<and>
   calculate ''(1+1)/(1-1)'' = Some (Inl Division_By_Zero)"
proof (intro conjI impI)
  assume "zero_divisor_first e"
  then show "calculate (text_expression e) = Some (Inl Division_By_Zero)"
    by (simp add: calculate_text zero_divisor_first_run(3))
next
  assume r: "reached s (Term_Loop r p)" and c: "char_at s p = Inr CHR ''/''"
    and g: "get_natural s (p + 1) = Some (Inr (0, p'))"
  from c g show t: "term_loop s r p = Some (Inl Division_By_Zero)"
    by (simp add: term_loop_divide)
  with r show e: "evaluate_expression s 0 = Some (Inl Division_By_Zero)"
    by (intro reached_stop [of s "Term_Loop r p"]) simp_all
  then show "calculate s = Some (Inl Division_By_Zero) \<or> calculate s = Some (Inl Wrong_Character)"
    by (rule calculate_stop)
next
  show "calculate ''1/0'' = Some (Inl Division_By_Zero)" by code_simp
  show "calculate ''(1+1)/(1-1)'' = Some (Inl Division_By_Zero)" by code_simp
qed

text \<open>
  The tree of \<^verbatim>\<open>8-(1+1)/(1-1)\<close>, and the text \<^verbatim>\<open>(2*(3/0\<close> with its two parentheses left
  open, where the term loop inside the second one stands at the division.
\<close>

theorem division_by_zero_stops_witness:
  "zero_divisor_first
     (Subtract (Single_Term (Single_Factor (Number False D8 [])))
      (Divide
        (Single_Factor (Group False (Add (Single_Term (Single_Factor (Number False D1 [])))
          (Single_Factor (Number False D1 [])))))
        (Group False (Subtract (Single_Term (Single_Factor (Number False D1 [])))
          (Single_Factor (Number False D1 [])))))) \<and>
   text_expression
     (Subtract (Single_Term (Single_Factor (Number False D8 [])))
      (Divide
        (Single_Factor (Group False (Add (Single_Term (Single_Factor (Number False D1 [])))
          (Single_Factor (Number False D1 [])))))
        (Group False (Subtract (Single_Term (Single_Factor (Number False D1 [])))
          (Single_Factor (Number False D1 [])))))) = ''8-(1+1)/(1-1)'' \<and>
   calculate ''8-(1+1)/(1-1)'' = Some (Inl Division_By_Zero) \<and>
   reached ''(2*(3/0'' (Term_Loop 3 5) \<and>
   char_at ''(2*(3/0'' 5 = Inr CHR ''/'' \<and> get_natural ''(2*(3/0'' (5 + 1) = Some (Inr (0, 7)) \<and>
   term_loop ''(2*(3/0'' 3 5 = Some (Inl Division_By_Zero) \<and>
   evaluate_expression ''(2*(3/0'' 0 = Some (Inl Division_By_Zero) \<and>
   calculate ''(2*(3/0'' = Some (Inl Division_By_Zero)"
proof -
  let ?e = "(Subtract (Single_Term (Single_Factor (Number False D8 [])))
      (Divide
        (Single_Factor (Group False (Add (Single_Term (Single_Factor (Number False D1 [])))
          (Single_Factor (Number False D1 [])))))
        (Group False (Subtract (Single_Term (Single_Factor (Number False D1 [])))
          (Single_Factor (Number False D1 []))))))"
  let ?s = "''(2*(3/0''"
  have z: "zero_divisor_first ?e"
    by (simp add: signed_def in_int_range_def INT_MIN_def INT_MAX_def)
  have t: "text_expression ?e = ''8-(1+1)/(1-1)''" by (simp add: sign_text_def)
  from division_by_zero_stops [of ?e] z
  have "calculate (text_expression ?e) = Some (Inl Division_By_Zero)" by blast
  then have k: "calculate ''8-(1+1)/(1-1)'' = Some (Inl Division_By_Zero)"
    unfolding t .
  have c0: "char_at ?s 0 = Inr CHR ''(''" by code_simp
  have g1: "get_natural ?s (0 + 1) = Some (Inr (2, 2))" by code_simp
  have c2: "char_at ?s 2 = Inr CHR ''*''" by code_simp
  have c3: "char_at ?s (2 + 1) = Inr CHR ''(''" by code_simp
  have g4: "get_natural ?s (2 + 1 + 1) = Some (Inr (3, 5))" by code_simp
  have c5: "char_at ?s 5 = Inr CHR ''/''" by code_simp
  have g6: "get_natural ?s (5 + 1) = Some (Inr (0, 7))" by code_simp
  have "reached ?s (Get_Natural 0)"
    by (intro reached.term_factor reached.expression_term reached.top_level)
  then have "reached ?s (Evaluate_Term (0 + 1))"
    by (intro reached.expression_term reached.group c0)
  then have "reached ?s (Term_Loop 2 2)"
    using g1 by (rule reached.term_loop)
  then have "reached ?s (Get_Natural (2 + 1))"
    using c2 by (rule reached.times_factor)
  then have "reached ?s (Evaluate_Term (2 + 1 + 1))"
    by (intro reached.expression_term reached.group c3)
  then have r: "reached ?s (Term_Loop 3 5)"
    using g4 by (rule reached.term_loop)
  from division_by_zero_stops [of _ ?s 3 5 7] r c5 g6
  have d: "term_loop ?s 3 5 = Some (Inl Division_By_Zero)"
    "evaluate_expression ?s 0 = Some (Inl Division_By_Zero)"
    by blast+
  have f: "calculate ?s = Some (Inl Division_By_Zero)" by code_simp
  show ?thesis by (intro conjI z t k r c5 g6 d f)
qed

end
